theory Spec2Isabelle
  imports Complex_Main "HOL-Library.Sublist"
begin

section \<open>Python string primitives used by the scraper\<close>

text \<open>
  The scraper (\<^verbatim>\<open>scrape.py\<close>) works on Python \<^verbatim>\<open>str\<close> values. They are modelled as
  \<^typ>\<open>string\<close>, so a character is one of the 256 code points below U+0100. Python floats
  are modelled as exact rationals (\<^typ>\<open>rat\<close>): rounding, infinities and NaN are outside
  the model. Messages printed to the diagnostic stream are not modelled.
\<close>

definition is_space :: "char \<Rightarrow> bool" where
  \<comment> \<open>\<^verbatim>\<open>str.isspace\<close> on one character, which is also the class \<^verbatim>\<open>\s\<close> of \<^verbatim>\<open>re\<close> on
      \<^verbatim>\<open>str\<close> patterns: TAB, LF, VT, FF, CR, FS, GS, RS, US, SPACE, NEL, NBSP.\<close>
  "is_space c = ((of_char c :: nat) \<in> {9, 10, 11, 12, 13, 28, 29, 30, 31, 32, 133, 160})"

definition strip :: "string \<Rightarrow> string" where
  \<comment> \<open>\<^verbatim>\<open>s.strip()\<close>\<close>
  "strip s = rev (dropWhile is_space (rev (dropWhile is_space s)))"

fun contains :: "string \<Rightarrow> string \<Rightarrow> bool" where
  \<comment> \<open>\<^verbatim>\<open>sub in s\<close>\<close>
  "contains sub [] = (sub = [])"
| "contains sub (c # cs) = (prefix sub (c # cs) \<or> contains sub cs)"

function replace_str :: "string \<Rightarrow> string \<Rightarrow> string \<Rightarrow> string" where
  \<comment> \<open>\<^verbatim>\<open>s.replace(old, new)\<close> for a non-empty \<^verbatim>\<open>old\<close> (the only use in the scraper):
      occurrences are replaced from left to right, without overlap.\<close>
  "replace_str old new [] = []"
| "replace_str old new (c # cs) =
     (if old \<noteq> [] \<and> prefix old (c # cs)
      then new @ replace_str old new (drop (length old) (c # cs))
      else c # replace_str old new cs)"
  by pat_completeness auto
termination
  by (relation "measure (\<lambda>(old, new, s). length s)") (auto simp: Suc_le_eq)

function split_str :: "string \<Rightarrow> string \<Rightarrow> string list" where
  \<comment> \<open>\<^verbatim>\<open>s.split(sep)\<close> for a non-empty \<^verbatim>\<open>sep\<close>: the pieces between the occurrences of
      \<^verbatim>\<open>sep\<close>, found from left to right without overlap; never the empty list.\<close>
  "split_str sep [] = [[]]"
| "split_str sep (c # cs) =
     (if sep \<noteq> [] \<and> prefix sep (c # cs)
      then [] # split_str sep (drop (length sep) (c # cs))
      else (case split_str sep cs of
              [] \<Rightarrow> [[c]]
            | p # ps \<Rightarrow> (c # p) # ps))"
  by pat_completeness auto
termination
  by (relation "measure (\<lambda>(sep, s). length s)") (auto simp: Suc_le_eq)

section \<open>Step 1: cleanup of the street cell\<close>

definition match_rich :: "string \<Rightarrow> string option" where
  \<comment> \<open>The pattern \<^verbatim>\<open>\s+RICH$\<close> matched at the head of \<^verbatim>\<open>s\<close>; the result is the text
      left after the match. \<^verbatim>\<open>$\<close> matches at the end of the string and just before a
      newline that ends the string.\<close>
  "match_rich s =
     (let t = dropWhile is_space s
      in if t \<noteq> s \<and> (t = ''RICH'' \<or> t = ''RICH'' @ [CHR 0x0A]) then Some (drop 4 t) else None)"

fun sub_rich :: "string \<Rightarrow> string" where
  \<comment> \<open>\<^verbatim>\<open>re.sub(r'\s+RICH$', '', s)\<close>: the leftmost match is deleted; no second match
      can follow it.\<close>
  "sub_rich [] = []"
| "sub_rich (c # cs) =
     (case match_rich (c # cs) of
        Some rest \<Rightarrow> rest
      | None \<Rightarrow> c # sub_rich cs)"

definition cleanup :: "string \<Rightarrow> string" where
  \<comment> \<open>Lines 102-103: the value of \<^verbatim>\<open>cleaned_street\<close> for a given \<^verbatim>\<open>incident['street']\<close>.\<close>
  "cleanup street =
     strip (sub_rich (replace_str ''/'' '' and '' (replace_str ''-BLK'' '''' street)))"

section \<open>Step 2: the embedded coordinate pair\<close>

definition match_ll :: "string \<Rightarrow> (string \<times> string) option" where
  \<comment> \<open>The pattern \<^verbatim>\<open>LL\(([^,]+),([^)]+)\)\<close> matched at the head of \<^verbatim>\<open>s\<close>, giving the two
      groups. Each group is greedy, and the character after it is fixed by the pattern,
      so the longest run is the only candidate.\<close>
  "match_ll s =
     (if prefix ''LL('' s then
        let r = drop 3 s;
            g1 = takeWhile (\<lambda>c. c \<noteq> CHR '','') r;
            r1 = dropWhile (\<lambda>c. c \<noteq> CHR '','') r
        in if g1 \<noteq> [] \<and> r1 \<noteq> [] then
             let r2 = tl r1;
                 g2 = takeWhile (\<lambda>c. c \<noteq> CHR '')'') r2;
                 r3 = dropWhile (\<lambda>c. c \<noteq> CHR '')'') r2
             in if g2 \<noteq> [] \<and> r3 \<noteq> [] then Some (g1, g2) else None
           else None
      else None)"

fun search_ll :: "string \<Rightarrow> (string \<times> string) option" where
  \<comment> \<open>\<^verbatim>\<open>re.search(r'LL\(([^,]+),([^)]+)\)', s)\<close>: the leftmost position with a match.\<close>
  "search_ll [] = None"
| "search_ll (c # cs) =
     (case match_ll (c # cs) of
        Some g \<Rightarrow> Some g
      | None \<Rightarrow> search_ll cs)"

datatype error = ValueError | IndexError

definition dms_to_dd :: "(string \<Rightarrow> rat option) \<Rightarrow> string \<Rightarrow> error + rat" where
  \<comment> \<open>Lines 112-117. \<^verbatim>\<open>pyfloat\<close> stands for the builtin \<^verbatim>\<open>float\<close> on strings: \<^verbatim>\<open>None\<close>
      where it raises ValueError. The list comprehension converts every part before
      any of them is indexed.\<close>
  "dms_to_dd pyfloat dms =
     (case those (map pyfloat (split_str '':'' dms)) of
        None \<Rightarrow> Inl ValueError
      | Some parts \<Rightarrow>
          if length parts < 3 then Inl IndexError
          else
            let dd = \<bar>parts ! 0\<bar> + parts ! 1 / 60 + parts ! 2 / 3600
            in if parts ! 0 < 0 then Inr (- dd) else Inr dd)"

datatype ll_failure = NoMatch | Raised error

definition parse_ll :: "(string \<Rightarrow> rat option) \<Rightarrow> string \<Rightarrow> ll_failure + (rat \<times> rat)" where
  \<comment> \<open>Lines 107-121 and the handlers of lines 132-139: the pair \<^verbatim>\<open>(lat, lng)\<close> stored in
      the incident, or the reason why both are set to \<^verbatim>\<open>None\<close>. The longitude group is
      converted first.\<close>
  "parse_ll pyfloat cleaned_street =
     (case search_ll cleaned_street of
        None \<Rightarrow> Inl NoMatch
      | Some (g1, g2) \<Rightarrow>
          let lon_dms = strip g1; lat_dms = strip g2
          in (case dms_to_dd pyfloat lon_dms of
                Inl e \<Rightarrow> Inl (Raised e)
              | Inr lngv \<Rightarrow>
                  (case dms_to_dd pyfloat lat_dms of
                     Inl e \<Rightarrow> Inl (Raised e)
                   | Inr latv \<Rightarrow> Inr (latv, lngv))))"

section \<open>Steps 3 to 5: the address sent to the geocoder\<close>

definition match_dir :: "string \<Rightarrow> string option" where
  \<comment> \<open>The pattern \<^verbatim>\<open>\s(NB|SB)$\<close> matched at the head of \<^verbatim>\<open>s\<close>; the result is the text
      left after the match.\<close>
  "match_dir s =
     (case s of
        [] \<Rightarrow> None
      | c # t \<Rightarrow>
          if is_space c \<and> (t = ''NB'' \<or> t = ''SB'' \<or> t = ''NB'' @ [CHR 0x0A] \<or> t = ''SB'' @ [CHR 0x0A])
          then Some (drop 2 t) else None)"

fun sub_dir :: "string \<Rightarrow> string" where
  \<comment> \<open>\<^verbatim>\<open>re.sub(r'\s(NB|SB)$', '', s)\<close>\<close>
  "sub_dir [] = []"
| "sub_dir (c # cs) =
     (case match_dir (c # cs) of
        Some rest \<Rightarrow> rest
      | None \<Rightarrow> c # sub_dir cs)"

definition address_to_geocode :: "string \<Rightarrow> string" where
  \<comment> \<open>Lines 145-158. \<^verbatim>\<open>split('@')[1]\<close> raises IndexError when the list has one element;
      the handler then falls back to the cleaned string. \<^verbatim>\<open>split(...)[0]\<close> always exists.\<close>
  "address_to_geocode cleaned_street =
     (if contains '' and '' cleaned_street then
        hd (split_str '' and '' cleaned_street)
      else if contains ''RICH: @'' cleaned_street \<and> contains ''BETWEEN'' cleaned_street then
        (case split_str ''@'' cleaned_street of
           _ # after_at # _ \<Rightarrow> sub_dir (strip (hd (split_str ''BETWEEN'' after_at)))
         | _ \<Rightarrow> cleaned_street)
      else cleaned_street)"

section \<open>The geocoding service and the intersection label\<close>

text \<open>
  The Nominatim client is outside the repository. A call is modelled by its reply; the
  state \<^typ>\<open>'w\<close> of the outside world is threaded through the calls, so that two calls
  with the same argument may be answered differently. Every call and every sleep is
  recorded as an event, in the order in which the program performs them.
\<close>

type_synonym address = "string \<rightharpoonup> string"

datatype geocode_reply =
    GeocodeRaises
  | GeocodeNone
  | GeocodeLocation rat rat  \<comment> \<open>latitude, longitude\<close>

datatype reverse_reply =
    ReverseRaises
  | ReverseNone  \<comment> \<open>no location\<close>
  | ReverseNoAddress  \<comment> \<open>a location whose \<^verbatim>\<open>raw\<close> is empty or has no \<^verbatim>\<open>'address'\<close>\<close>
  | ReverseAddress address  \<comment> \<open>\<^verbatim>\<open>location.raw['address']\<close>\<close>

record 'w geolocator =
  geocode :: "string \<Rightarrow> 'w \<Rightarrow> geocode_reply \<times> 'w"
  reverse :: "rat \<times> rat \<Rightarrow> 'w \<Rightarrow> reverse_reply \<times> 'w"

datatype event =
    Geocode string  \<comment> \<open>\<^verbatim>\<open>geolocator.geocode(query, timeout=5)\<close>\<close>
  | Reverse rat rat  \<comment> \<open>\<^verbatim>\<open>geolocator.reverse((lat, lon), ...)\<close>\<close>
  | Sleep rat  \<comment> \<open>\<^verbatim>\<open>time.sleep(seconds)\<close>\<close>

definition road_of :: "address \<Rightarrow> string" where
  \<comment> \<open>Line 25: \<^verbatim>\<open>x or y\<close> is \<^verbatim>\<open>y\<close> when \<^verbatim>\<open>x\<close> is \<^verbatim>\<open>None\<close> or the empty string.\<close>
  "road_of address =
     (case address ''road'' of
        Some r \<Rightarrow>
          if r \<noteq> [] then r
          else (case address ''street'' of
                  Some s \<Rightarrow> if s \<noteq> [] then s else (case address ''pedestrian'' of Some p \<Rightarrow> p | None \<Rightarrow> [])
                | None \<Rightarrow> (case address ''pedestrian'' of Some p \<Rightarrow> p | None \<Rightarrow> []))
      | None \<Rightarrow>
          (case address ''street'' of
             Some s \<Rightarrow> if s \<noteq> [] then s else (case address ''pedestrian'' of Some p \<Rightarrow> p | None \<Rightarrow> [])
           | None \<Rightarrow> (case address ''pedestrian'' of Some p \<Rightarrow> p | None \<Rightarrow> [])))"

definition suburb_of :: "address \<Rightarrow> string" where
  \<comment> \<open>Line 28\<close>
  "suburb_of address = (case address ''suburb'' of Some s \<Rightarrow> s | None \<Rightarrow> [])"

definition intersection_label :: "address \<Rightarrow> string" where
  \<comment> \<open>Lines 22-42, for a reply that has an address block.\<close>
  "intersection_label address =
     (let road = road_of address; suburb = suburb_of address
      in if road \<noteq> [] \<and> (CHR ''&'' \<in> set road \<or> CHR ''/'' \<in> set road) then road
         else if road \<noteq> [] \<and> suburb \<noteq> [] then road @ '', '' @ suburb
         else if road \<noteq> [] then road
         else if suburb \<noteq> [] then suburb
         else [])"

definition get_nearest_intersection ::
  "'w geolocator \<Rightarrow> rat option \<Rightarrow> rat option \<Rightarrow> 'w \<Rightarrow> string \<times> event list \<times> 'w" where
  \<comment> \<open>Lines 9-46: the label, the calls made, and the world after them.\<close>
  "get_nearest_intersection geolocator lat lon w =
     (case (lat, lon) of
        (Some la, Some lo) \<Rightarrow>
          (case reverse geolocator (la, lo) w of
             (ReverseAddress address, w') \<Rightarrow> (intersection_label address, [Reverse la lo], w')
           | (_, w') \<Rightarrow> ([], [Reverse la lo], w'))
      | _ \<Rightarrow> ([], [], w))"

section \<open>One table row, and the loop over the rows\<close>

record incident =
  type_general :: string
  dispatch_time :: string
  box_no :: string
  type_specific :: string
  street :: string
  status :: string
  cross_street :: string
  nearest_intersection :: string
  location_township :: string
  lat :: "rat option"
  lng :: "rat option"

definition new_incident :: "string list \<Rightarrow> incident" where
  \<comment> \<open>Lines 89-99, for a row of at least seven cells, given by the text of each cell.
      The dictionary has no \<^verbatim>\<open>'lat'\<close> and \<^verbatim>\<open>'lng'\<close> yet; every path below stores both.\<close>
  "new_incident cells =
     \<lparr> type_general = strip (cells ! 1),
       dispatch_time = strip (cells ! 0),
       box_no = strip (cells ! 2),
       type_specific = strip (cells ! 4),
       street = strip (cells ! 5),
       status = strip (cells ! 6),
       cross_street = [],
       nearest_intersection = [],
       location_township = strip (cells ! 2),
       lat = None,
       lng = None \<rparr>"

definition process_row ::
  "(string \<Rightarrow> rat option) \<Rightarrow> 'w geolocator \<Rightarrow> string list \<Rightarrow> 'w \<Rightarrow> incident \<times> event list \<times> 'w" where
  \<comment> \<open>Lines 89-193, the body of the loop for a row of at least seven cells: the incident
      appended, the events of the row in order, and the world after them.\<close>
  "process_row pyfloat geolocator cells w =
     (let incident = new_incident cells;
          cleaned_street = cleanup (street incident)
      in if prefix ''LL('' cleaned_street then
           (case parse_ll pyfloat cleaned_street of
              Inr (latv, lngv) \<Rightarrow>
                (case get_nearest_intersection geolocator (Some latv) (Some lngv) w of
                   (intersection, evs, w') \<Rightarrow>
                     (incident\<lparr> lng := Some lngv, lat := Some latv,
                                nearest_intersection :=
                                  (if intersection \<noteq> [] then intersection
                                   else nearest_intersection incident) \<rparr>,
                      evs, w'))
            | Inl _ \<Rightarrow> (incident\<lparr> lat := None, lng := None \<rparr>, [], w))
         else
           let full_address = address_to_geocode cleaned_street @ '', Richmond, VA''
           in (case geocode geolocator full_address w of
                 (GeocodeLocation la lo, w1) \<Rightarrow>
                   (case get_nearest_intersection geolocator (Some la) (Some lo) w1 of
                      (intersection, evs, w2) \<Rightarrow>
                        (incident\<lparr> lat := Some la, lng := Some lo,
                                   nearest_intersection :=
                                     (if intersection \<noteq> [] then intersection
                                      else nearest_intersection incident) \<rparr>,
                         Geocode full_address # evs @ [Sleep (11 / 10)], w2))
               | (_, w1) \<Rightarrow>
                   (incident\<lparr> lat := None, lng := None \<rparr>,
                    [Geocode full_address, Sleep (11 / 10)], w1)))"

fun scrape_rows ::
  "(string \<Rightarrow> rat option) \<Rightarrow> 'w geolocator \<Rightarrow> string list list \<Rightarrow> 'w \<Rightarrow> incident list \<times> event list \<times> 'w" where
  \<comment> \<open>The loop of lines 85-193 over the rows after the header, each row given by the
      texts of its \<^verbatim>\<open>td\<close> cells: the list \<^verbatim>\<open>incidents\<close>, all events, the final world.\<close>
  "scrape_rows pyfloat geolocator [] w = ([], [], w)"
| "scrape_rows pyfloat geolocator (cells # rows) w =
     (if length cells \<ge> 7 then
        (case process_row pyfloat geolocator cells w of
           (incident, evs, w1) \<Rightarrow>
             (case scrape_rows pyfloat geolocator rows w1 of
                (incidents, evs', w2) \<Rightarrow> (incident # incidents, evs @ evs', w2)))
      else scrape_rows pyfloat geolocator rows w)"

section \<open>A float parser for concrete inputs\<close>

definition digit_of :: "char \<Rightarrow> nat option" where
  "digit_of =
     map_of [(CHR ''0'', 0), (CHR ''1'', 1), (CHR ''2'', 2), (CHR ''3'', 3), (CHR ''4'', 4),
             (CHR ''5'', 5), (CHR ''6'', 6), (CHR ''7'', 7), (CHR ''8'', 8), (CHR ''9'', 9)]"

fun digits_value :: "nat \<Rightarrow> string \<Rightarrow> nat option" where
  "digits_value acc [] = Some acc"
| "digits_value acc (c # cs) =
     (case digit_of c of
        None \<Rightarrow> None
      | Some d \<Rightarrow> digits_value (10 * acc + d) cs)"

definition unsigned_literal :: "string \<Rightarrow> rat option" where
  "unsigned_literal s =
     (let ip = takeWhile (\<lambda>c. c \<noteq> CHR ''.'') s;
          r = dropWhile (\<lambda>c. c \<noteq> CHR ''.'') s
      in if ip = [] then None
         else if r = [] then map_option of_nat (digits_value 0 ip)
         else if tl r = [] then None
         else (case (digits_value 0 ip, digits_value 0 (tl r)) of
                 (Some i, Some f) \<Rightarrow> Some (of_nat i + of_nat f / 10 ^ length (tl r))
               | _ \<Rightarrow> None))"

definition float_literal :: "string \<Rightarrow> rat option" where
  \<comment> \<open>The builtin \<^verbatim>\<open>float\<close> on the literals \<^verbatim>\<open>[+-]?[0-9]+(\.[0-9]+)?\<close>, where it returns the
      value written. Any other string is rejected here, although \<^verbatim>\<open>float\<close> accepts more
      (exponents, surrounding whitespace, \<^verbatim>\<open>inf\<close>, \<^verbatim>\<open>nan\<close>, underscores); the general
      results below hold for every parser, and this one is applied only to inputs
      whose numeric parts are such literals.\<close>
  "float_literal s =
     (case s of
        [] \<Rightarrow> None
      | c # cs \<Rightarrow>
          if c = CHR ''-'' then map_option uminus (unsigned_literal cs)
          else if c = CHR ''+'' then unsigned_literal cs
          else unsigned_literal s)"

definition stub_geolocator :: "geocode_reply \<Rightarrow> reverse_reply \<Rightarrow> unit geolocator" where
  \<comment> \<open>A geocoder that gives the same two replies to every call.\<close>
  "stub_geolocator g r = \<lparr> geocode = (\<lambda>query w. (g, w)), reverse = (\<lambda>point w. (r, w)) \<rparr>"

section \<open>Properties named by the specification\<close>

fun delay_before_each_call :: "bool \<Rightarrow> event list \<Rightarrow> bool" where
  \<comment> \<open>The discipline of the specification, section 5: a sleep of at least 1.1 lies between
      every network call and the call before it. The flag says whether such a sleep
      has passed since the last call; it starts as \<^verbatim>\<open>False\<close> when the first call of a run
      must be preceded by a sleep as well.\<close>
  "delay_before_each_call rested [] = True"
| "delay_before_each_call rested (Sleep d # es) = delay_before_each_call (rested \<or> 11 / 10 \<le> d) es"
| "delay_before_each_call rested (Geocode q # es) = (rested \<and> delay_before_each_call False es)"
| "delay_before_each_call rested (Reverse la lo # es) = (rested \<and> delay_before_each_call False es)"

fun delay_between_geocodes :: "bool \<Rightarrow> event list \<Rightarrow> bool" where
  \<comment> \<open>The same discipline for the forward-geocoding calls alone.\<close>
  "delay_between_geocodes rested [] = True"
| "delay_between_geocodes rested (Sleep d # es) = delay_between_geocodes (rested \<or> 11 / 10 \<le> d) es"
| "delay_between_geocodes rested (Geocode q # es) = (rested \<and> delay_between_geocodes False es)"
| "delay_between_geocodes rested (Reverse la lo # es) = delay_between_geocodes rested es"

definition first_present :: "address \<Rightarrow> string list \<Rightarrow> string" where
  \<comment> \<open>The specification, section 4.4, step 1: the first of the given fields that is present
      with a non-empty value; the empty string when there is none.\<close>
  "first_present address keys =
     (case filter (\<lambda>v. v \<noteq> []) (map (\<lambda>k. case address k of Some v \<Rightarrow> v | None \<Rightarrow> []) keys) of
        [] \<Rightarrow> []
      | v # _ \<Rightarrow> v)"

fun after_first :: "string \<Rightarrow> string \<Rightarrow> string option" where
  \<comment> \<open>The text after the first occurrence of \<^verbatim>\<open>sub\<close> in a string, if there is one.\<close>
  "after_first sub [] = (if sub = [] then Some [] else None)"
| "after_first sub (c # cs) =
     (if prefix sub (c # cs) then Some (drop (length sub) (c # cs)) else after_first sub cs)"

definition marker_then_between :: "string \<Rightarrow> bool" where
  \<comment> \<open>The specification, section 4.2, step 4: the string contains the marker \<^verbatim>\<open>RICH: @\<close>
      followed later by \<^verbatim>\<open>BETWEEN\<close>.\<close>
  "marker_then_between s =
     (case after_first ''RICH: @'' s of
        None \<Rightarrow> False
      | Some rest \<Rightarrow> contains ''BETWEEN'' rest)"

fun before_first :: "string \<Rightarrow> string \<Rightarrow> string" where
  \<comment> \<open>The text before the first occurrence of \<^verbatim>\<open>sep\<close> in a string; the whole string
      when \<^verbatim>\<open>sep\<close> does not occur.\<close>
  "before_first sep [] = []"
| "before_first sep (c # cs) = (if prefix sep (c # cs) then [] else c # before_first sep cs)"

definition drop_direction :: "string \<Rightarrow> string" where
  \<comment> \<open>The specification, section 4.2, step 4: a trailing directional token \<^verbatim>\<open>NB\<close> or \<^verbatim>\<open>SB\<close>,
      with the whitespace character before it, removed when the string ends so.\<close>
  "drop_direction t =
     (if 3 \<le> length t \<and> is_space (t ! (length t - 3))
         \<and> (drop (length t - 2) t = ''NB'' \<or> drop (length t - 2) t = ''SB'')
      then take (length t - 3) t else t)"

section \<open>Splitting and pattern matching\<close>

lemma split_char_none: "c \<notin> set a \<Longrightarrow> split_str [c] a = [a]"
  by (induction a) auto

lemma split_char_append:
  "c \<notin> set a \<Longrightarrow> split_str [c] (a @ c # b) = a # split_str [c] b"
  by (induction a) auto

lemma takeWhile_until: "c \<notin> set a \<Longrightarrow> takeWhile (\<lambda>x. x \<noteq> c) (a @ c # b) = a"
  by (induction a) auto

lemma dropWhile_until: "c \<notin> set a \<Longrightarrow> dropWhile (\<lambda>x. x \<noteq> c) (a @ c # b) = c # b"
  by (induction a) auto

lemma match_ll_wellformed:
  assumes "g1 \<noteq> []" "CHR '','' \<notin> set g1" "g2 \<noteq> []" "CHR '')'' \<notin> set g2"
  shows "match_ll (''LL('' @ g1 @ '','' @ g2 @ '')'' @ rest) = Some (g1, g2)"
  using assms by (simp add: match_ll_def takeWhile_until dropWhile_until Let_def)

lemma search_ll_wellformed:
  assumes "g1 \<noteq> []" "CHR '','' \<notin> set g1" "g2 \<noteq> []" "CHR '')'' \<notin> set g2"
  shows "search_ll (''LL('' @ g1 @ '','' @ g2 @ '')'' @ rest) = Some (g1, g2)"
proof -
  obtain t where t: "''LL('' @ g1 @ '','' @ g2 @ '')'' @ rest = CHR ''L'' # t" by simp
  show ?thesis using match_ll_wellformed[OF assms, of rest] unfolding t by simp
qed

section \<open>The coordinate decoder\<close>

lemma dms_to_dd_three:
  assumes "split_str '':'' dms = [d, m, s]"
    and "pyfloat d = Some dv" "pyfloat m = Some mv" "pyfloat s = Some sv"
  shows "dms_to_dd pyfloat dms =
         Inr (if dv < 0 then - (\<bar>dv\<bar> + mv / 60 + sv / 3600) else \<bar>dv\<bar> + mv / 60 + sv / 3600)"
  using assms by (simp add: dms_to_dd_def Let_def)

text \<open>
  C10. The sign of a group is taken from the numeric value of its degrees part. The part
  \<^verbatim>\<open>-0\<close> converts to a zero that is not below zero, so a group \<^verbatim>\<open>-0:M:S\<close> decodes to
  \<open>M/60 + S/3600\<close>, without the sign that its text carries.
\<close>

theorem minus_zero_degrees_lose_sign:
  assumes "pyfloat ''-0'' = Some 0"
    and "CHR '':'' \<notin> set m" "CHR '':'' \<notin> set s"
    and "pyfloat m = Some mv" "pyfloat s = Some sv"
  shows "dms_to_dd pyfloat (''-0:'' @ m @ '':'' @ s) = Inr (mv / 60 + sv / 3600)"
proof -
  have "split_str '':'' (''-0'' @ CHR '':'' # (m @ CHR '':'' # s)) =
        ''-0'' # split_str '':'' (m @ CHR '':'' # s)"
    by (rule split_char_append) simp
  also have "split_str '':'' (m @ CHR '':'' # s) = m # split_str '':'' s"
    using assms(2) by (rule split_char_append)
  also have "split_str '':'' s = [s]"
    using assms(3) by (rule split_char_none)
  finally have "split_str '':'' (''-0:'' @ m @ '':'' @ s) = [''-0'', m, s]"
    by simp
  from dms_to_dd_three[OF this assms(1,4,5)] show ?thesis
    by simp
qed

theorem minus_zero_degrees_lose_sign_witness:
  "float_literal ''-0'' = Some 0 \<and> float_literal ''30'' = Some 30 \<and> float_literal ''0'' = Some 0
   \<and> dms_to_dd float_literal ''-0:30:0'' = Inr (1 / 2)"
proof -
  have a: "float_literal ''-0'' = Some 0"
    by (simp add: float_literal_def unsigned_literal_def digit_of_def)
  have b: "float_literal ''30'' = Some 30"
    by (simp add: float_literal_def unsigned_literal_def digit_of_def)
  have c: "float_literal ''0'' = Some 0"
    by (simp add: float_literal_def unsigned_literal_def digit_of_def)
  show ?thesis
    using minus_zero_degrees_lose_sign[of float_literal "''30''" "''0''" 30 0, OF a _ _ b c] a b c
    by simp
qed

lemma those_None_iff: "those xs = None \<longleftrightarrow> None \<in> set xs"
  by (induction xs) (auto split: option.splits)

lemma those_map_None_iff: "those (map f xs) = None \<longleftrightarrow> (\<exists>x \<in> set xs. f x = None)"
  by (induction xs) (auto split: option.splits)

lemma those_Some_length: "those xs = Some ys \<Longrightarrow> length ys = length xs"
  by (induction xs arbitrary: ys) (auto split: option.splits)

lemma dms_to_dd_fails_iff:
  "(\<exists>e. dms_to_dd pyfloat dms = Inl e) \<longleftrightarrow>
   (\<exists>p \<in> set (split_str '':'' dms). pyfloat p = None) \<or> length (split_str '':'' dms) < 3"
proof (cases "those (map pyfloat (split_str '':'' dms))")
  case None
  then show ?thesis
    using those_map_None_iff[of pyfloat "split_str '':'' dms"] by (simp add: dms_to_dd_def)
next
  case (Some parts)
  then have len: "length parts = length (split_str '':'' dms)"
    by (auto dest: those_Some_length)
  from Some have "\<not> (\<exists>p \<in> set (split_str '':'' dms). pyfloat p = None)"
    using those_map_None_iff[of pyfloat "split_str '':'' dms"] by simp
  with Some len show ?thesis by (simp add: dms_to_dd_def Let_def)
qed

lemma parse_ll_fails_iff:
  assumes "search_ll cleaned_street = Some (g1, g2)"
  shows "(\<exists>f. parse_ll pyfloat cleaned_street = Inl f) \<longleftrightarrow>
         (\<exists>e. dms_to_dd pyfloat (strip g1) = Inl e) \<or> (\<exists>e. dms_to_dd pyfloat (strip g2) = Inl e)"
  using assms by (auto simp: parse_ll_def Let_def split: sum.splits)

lemma process_row_ll:
  assumes "prefix ''LL('' (cleanup (strip (cells ! 5)))"
  shows "lat (fst (process_row pyfloat geolocator cells w)) =
           (case parse_ll pyfloat (cleanup (strip (cells ! 5))) of Inl f \<Rightarrow> None | Inr (la, lo) \<Rightarrow> Some la)"
    and "lng (fst (process_row pyfloat geolocator cells w)) =
           (case parse_ll pyfloat (cleanup (strip (cells ! 5))) of Inl f \<Rightarrow> None | Inr (la, lo) \<Rightarrow> Some lo)"
  using assms by (auto simp: process_row_def new_incident_def Let_def split: sum.splits prod.splits)

lemmas eval_defs = cleanup_def strip_def is_space_def match_rich_def float_literal_def
  unsigned_literal_def digit_of_def

text \<open>
  C4. A row whose cleaned street is \<^verbatim>\<open>LL(g1,g2)\<close> followed by anything, where each group
  splits on \<^verbatim>\<open>:\<close> into three numeric parts D, M, S, gets the decimal degrees
  \<open>|D| + M/60 + S/3600\<close> of each group, negated when D is below zero; the first group is
  stored as the longitude and the second as the latitude.
\<close>

theorem ll_decode_formula:
  assumes "cleanup (strip (cells ! 5)) = ''LL('' @ g1 @ '','' @ g2 @ '')'' @ rest"
    and "g1 \<noteq> []" "CHR '','' \<notin> set g1" "g2 \<noteq> []" "CHR '')'' \<notin> set g2"
    and "split_str '':'' (strip g1) = [d1, m1, s1]"
    and "split_str '':'' (strip g2) = [d2, m2, s2]"
    and "pyfloat d1 = Some D1" "pyfloat m1 = Some M1" "pyfloat s1 = Some S1"
    and "pyfloat d2 = Some D2" "pyfloat m2 = Some M2" "pyfloat s2 = Some S2"
  shows "lng (fst (process_row pyfloat geolocator cells w)) =
           Some (if D1 < 0 then - (\<bar>D1\<bar> + M1 / 60 + S1 / 3600) else \<bar>D1\<bar> + M1 / 60 + S1 / 3600)
         \<and> lat (fst (process_row pyfloat geolocator cells w)) =
           Some (if D2 < 0 then - (\<bar>D2\<bar> + M2 / 60 + S2 / 3600) else \<bar>D2\<bar> + M2 / 60 + S2 / 3600)"
proof -
  let ?c = "cleanup (strip (cells ! 5))"
  have pre: "prefix ''LL('' ?c"
    unfolding assms(1) by simp
  have "search_ll ?c = Some (g1, g2)"
    unfolding assms(1) using assms(2-5) by (rule search_ll_wellformed)
  moreover note dms_to_dd_three[OF assms(6) assms(8-10)] dms_to_dd_three[OF assms(7) assms(11-13)]
  ultimately have "parse_ll pyfloat ?c =
      Inr (if D2 < 0 then - (\<bar>D2\<bar> + M2 / 60 + S2 / 3600) else \<bar>D2\<bar> + M2 / 60 + S2 / 3600,
           if D1 < 0 then - (\<bar>D1\<bar> + M1 / 60 + S1 / 3600) else \<bar>D1\<bar> + M1 / 60 + S1 / 3600)"
    by (simp add: parse_ll_def)
  then show ?thesis
    by (simp add: process_row_ll[OF pre])
qed

text \<open>
  The example of the specification: \<^verbatim>\<open>LL(-77:25:30,37:32:12)\<close> gives a longitude within
  \<open>1/1000\<close> of \<open>-77.4250\<close> and a latitude within \<open>1/1000\<close> of \<open>37.5367\<close>.
\<close>

theorem ll_decode_formula_witness:
  "lng (fst (process_row float_literal (stub_geolocator GeocodeNone ReverseNone)
       [''10:15'', ''FIRE'', ''B12'', '''', ''ALARM'', ''LL(-77:25:30,37:32:12)'', ''Dispatched''] ()))
     = Some (- (3097 / 40))
   \<and> lat (fst (process_row float_literal (stub_geolocator GeocodeNone ReverseNone)
       [''10:15'', ''FIRE'', ''B12'', '''', ''ALARM'', ''LL(-77:25:30,37:32:12)'', ''Dispatched''] ()))
     = Some (11261 / 300)
   \<and> \<bar>- (3097 / 40) - (- 77.4250 :: rat)\<bar> < 1 / 1000
   \<and> \<bar>11261 / 300 - (37.5367 :: rat)\<bar> < 1 / 1000"
proof -
  let ?cells = "[''10:15'', ''FIRE'', ''B12'', '''', ''ALARM'', ''LL(-77:25:30,37:32:12)'', ''Dispatched'']"
  have c: "cleanup (strip (?cells ! 5)) = ''LL('' @ ''-77:25:30'' @ '','' @ ''37:32:12'' @ '')'' @ []"
    by (simp add: eval_defs)
  have s1: "split_str '':'' (strip ''-77:25:30'') = [''-77'', ''25'', ''30'']"
    by (simp add: eval_defs)
  have s2: "split_str '':'' (strip ''37:32:12'') = [''37'', ''32'', ''12'']"
    by (simp add: eval_defs)
  have f: "float_literal ''-77'' = Some (- 77)" "float_literal ''25'' = Some 25"
    "float_literal ''30'' = Some 30" "float_literal ''37'' = Some 37"
    "float_literal ''32'' = Some 32" "float_literal ''12'' = Some 12"
    by (simp_all add: eval_defs)
  show ?thesis
    using ll_decode_formula[OF c _ _ _ _ s1 s2 f, of "stub_geolocator GeocodeNone ReverseNone" "()"]
    by simp
qed

text \<open>
  C3, as stated, fails: a group of four numeric parts is accepted, and the fourth part is
  ignored.
\<close>

theorem four_part_group_accepted:
  "search_ll ''LL(1:2:3:4,5:6:7)'' = Some (''1:2:3:4'', ''5:6:7'')
   \<and> split_str '':'' (strip ''1:2:3:4'') = [''1'', ''2'', ''3'', ''4'']
   \<and> those (map float_literal [''1'', ''2'', ''3'', ''4'']) = Some [1, 2, 3, 4]
   \<and> parse_ll float_literal ''LL(1:2:3:4,5:6:7)'' = Inr (18367 / 3600, 1241 / 1200)"
  by (simp add: parse_ll_def match_ll_def dms_to_dd_def eval_defs)

lemma those_map_Some:
  "\<forall>x \<in> set xs. f x \<noteq> None \<Longrightarrow> \<exists>ys. those (map f xs) = Some ys"
  using those_map_None_iff[of f xs] by (cases "those (map f xs)") auto

lemma dms_to_dd_first_three:
  assumes "split_str '':'' dms = d # m # s # extra"
    and "pyfloat d = Some dv" "pyfloat m = Some mv" "pyfloat s = Some sv"
    and "\<forall>p \<in> set extra. pyfloat p \<noteq> None"
  shows "dms_to_dd pyfloat dms =
         Inr (if dv < 0 then - (\<bar>dv\<bar> + mv / 60 + sv / 3600) else \<bar>dv\<bar> + mv / 60 + sv / 3600)"
proof -
  from those_map_Some[OF assms(5)] obtain vs where "those (map pyfloat extra) = Some vs"
    by blast
  with assms(1-4) have "those (map pyfloat (split_str '':'' dms)) = Some (dv # mv # sv # vs)"
    by simp
  then show ?thesis
    by (simp add: dms_to_dd_def Let_def)
qed

text \<open>
  C3, amended. For a row whose cleaned street starts with \<^verbatim>\<open>LL(\<close> and matches the
  envelope pattern with groups g1 and g2, the coordinates of the incident are both absent
  if and only if some part of a group is not numeric or a group has fewer than three
  parts. A group of more than three numeric parts is accepted: the coordinates are the
  decimal degrees of the first three parts of each group, whatever the further parts are.
\<close>

theorem ll_decode_fails_iff:
  assumes "prefix ''LL('' (cleanup (strip (cells ! 5)))"
    and "search_ll (cleanup (strip (cells ! 5))) = Some (g1, g2)"
  shows "((lat (fst (process_row pyfloat geolocator cells w)) = None
           \<and> lng (fst (process_row pyfloat geolocator cells w)) = None)
          \<longleftrightarrow>
          (\<exists>p \<in> set (split_str '':'' (strip g1)). pyfloat p = None) \<or> length (split_str '':'' (strip g1)) < 3
           \<or> (\<exists>p \<in> set (split_str '':'' (strip g2)). pyfloat p = None) \<or> length (split_str '':'' (strip g2)) < 3)
         \<and> (\<forall>d1 m1 s1 extra1 d2 m2 s2 extra2 D1 M1 S1 D2 M2 S2.
               split_str '':'' (strip g1) = d1 # m1 # s1 # extra1
               \<and> split_str '':'' (strip g2) = d2 # m2 # s2 # extra2
               \<and> pyfloat d1 = Some D1 \<and> pyfloat m1 = Some M1 \<and> pyfloat s1 = Some S1
               \<and> pyfloat d2 = Some D2 \<and> pyfloat m2 = Some M2 \<and> pyfloat s2 = Some S2
               \<and> (\<forall>p \<in> set (extra1 @ extra2). pyfloat p \<noteq> None)
               \<longrightarrow>
               lng (fst (process_row pyfloat geolocator cells w)) =
                 Some (if D1 < 0 then - (\<bar>D1\<bar> + M1 / 60 + S1 / 3600) else \<bar>D1\<bar> + M1 / 60 + S1 / 3600)
               \<and> lat (fst (process_row pyfloat geolocator cells w)) =
                 Some (if D2 < 0 then - (\<bar>D2\<bar> + M2 / 60 + S2 / 3600) else \<bar>D2\<bar> + M2 / 60 + S2 / 3600))"
proof (intro conjI allI impI)
  let ?c = "cleanup (strip (cells ! 5))"
  have "(lat (fst (process_row pyfloat geolocator cells w)) = None
          \<and> lng (fst (process_row pyfloat geolocator cells w)) = None)
        \<longleftrightarrow> (\<exists>f. parse_ll pyfloat ?c = Inl f)"
    by (auto simp: process_row_ll[OF assms(1)] split: sum.splits)
  also have "\<dots> \<longleftrightarrow> (\<exists>e. dms_to_dd pyfloat (strip g1) = Inl e) \<or> (\<exists>e. dms_to_dd pyfloat (strip g2) = Inl e)"
    by (rule parse_ll_fails_iff[OF assms(2)])
  finally show "(lat (fst (process_row pyfloat geolocator cells w)) = None
           \<and> lng (fst (process_row pyfloat geolocator cells w)) = None)
          \<longleftrightarrow>
          (\<exists>p \<in> set (split_str '':'' (strip g1)). pyfloat p = None) \<or> length (split_str '':'' (strip g1)) < 3
           \<or> (\<exists>p \<in> set (split_str '':'' (strip g2)). pyfloat p = None) \<or> length (split_str '':'' (strip g2)) < 3"
    unfolding dms_to_dd_fails_iff by blast
next
  fix d1 m1 s1 extra1 d2 m2 s2 extra2 D1 M1 S1 D2 M2 S2
  assume a: "split_str '':'' (strip g1) = d1 # m1 # s1 # extra1
               \<and> split_str '':'' (strip g2) = d2 # m2 # s2 # extra2
               \<and> pyfloat d1 = Some D1 \<and> pyfloat m1 = Some M1 \<and> pyfloat s1 = Some S1
               \<and> pyfloat d2 = Some D2 \<and> pyfloat m2 = Some M2 \<and> pyfloat s2 = Some S2
               \<and> (\<forall>p \<in> set (extra1 @ extra2). pyfloat p \<noteq> None)"
  then have 1: "dms_to_dd pyfloat (strip g1) =
      Inr (if D1 < 0 then - (\<bar>D1\<bar> + M1 / 60 + S1 / 3600) else \<bar>D1\<bar> + M1 / 60 + S1 / 3600)"
    by (intro dms_to_dd_first_three[where d = d1 and m = m1 and s = s1 and extra = extra1]) auto
  from a have 2: "dms_to_dd pyfloat (strip g2) =
      Inr (if D2 < 0 then - (\<bar>D2\<bar> + M2 / 60 + S2 / 3600) else \<bar>D2\<bar> + M2 / 60 + S2 / 3600)"
    by (intro dms_to_dd_first_three[where d = d2 and m = m2 and s = s2 and extra = extra2]) auto
  have p: "parse_ll pyfloat (cleanup (strip (cells ! 5))) =
      Inr (if D2 < 0 then - (\<bar>D2\<bar> + M2 / 60 + S2 / 3600) else \<bar>D2\<bar> + M2 / 60 + S2 / 3600,
           if D1 < 0 then - (\<bar>D1\<bar> + M1 / 60 + S1 / 3600) else \<bar>D1\<bar> + M1 / 60 + S1 / 3600)"
    using assms(2) 1 2 by (simp add: parse_ll_def)
  show "lng (fst (process_row pyfloat geolocator cells w)) =
                 Some (if D1 < 0 then - (\<bar>D1\<bar> + M1 / 60 + S1 / 3600) else \<bar>D1\<bar> + M1 / 60 + S1 / 3600)"
    by (simp add: process_row_ll[OF assms(1)] p)
  show "lat (fst (process_row pyfloat geolocator cells w)) =
                 Some (if D2 < 0 then - (\<bar>D2\<bar> + M2 / 60 + S2 / 3600) else \<bar>D2\<bar> + M2 / 60 + S2 / 3600)"
    by (simp add: process_row_ll[OF assms(1)] p)
qed

theorem ll_decode_fails_iff_witness:
  "lat (fst (process_row float_literal (stub_geolocator GeocodeNone ReverseNone)
       [''10:15'', ''FIRE'', ''B12'', '''', ''ALARM'', ''LL(1:2,3:4:5)'', ''Dispatched''] ())) = None
   \<and> lng (fst (process_row float_literal (stub_geolocator GeocodeNone ReverseNone)
       [''10:15'', ''FIRE'', ''B12'', '''', ''ALARM'', ''LL(1:2,3:4:5)'', ''Dispatched''] ())) = None
   \<and> lng (fst (process_row float_literal (stub_geolocator GeocodeNone ReverseNone)
       [''10:15'', ''FIRE'', ''B12'', '''', ''ALARM'', ''LL(1:2:3:4,5:6:7)'', ''Dispatched''] ()))
      = Some (1241 / 1200)
   \<and> lat (fst (process_row float_literal (stub_geolocator GeocodeNone ReverseNone)
       [''10:15'', ''FIRE'', ''B12'', '''', ''ALARM'', ''LL(1:2:3:4,5:6:7)'', ''Dispatched''] ()))
      = Some (18367 / 3600)"
proof -
  let ?cells = "[''10:15'', ''FIRE'', ''B12'', '''', ''ALARM'', ''LL(1:2,3:4:5)'', ''Dispatched'']"
  let ?four = "[''10:15'', ''FIRE'', ''B12'', '''', ''ALARM'', ''LL(1:2:3:4,5:6:7)'', ''Dispatched'']"
  let ?g = "stub_geolocator GeocodeNone ReverseNone"
  have c: "cleanup (strip (?cells ! 5)) = ''LL(1:2,3:4:5)''"
    by (simp add: eval_defs)
  have p: "prefix ''LL('' (cleanup (strip (?cells ! 5)))"
    unfolding c by simp
  have m: "search_ll (cleanup (strip (?cells ! 5))) = Some (''1:2'', ''3:4:5'')"
    unfolding c by (simp add: match_ll_def)
  have "length (split_str '':'' (strip ''1:2'')) < 3"
    by (simp add: eval_defs)
  then have bad: "lat (fst (process_row float_literal ?g ?cells ())) = None
      \<and> lng (fst (process_row float_literal ?g ?cells ())) = None"
    using ll_decode_fails_iff[OF p m, of float_literal ?g "()"]
    by blast
  have c4: "cleanup (strip (?four ! 5)) = ''LL(1:2:3:4,5:6:7)''"
    by (simp add: eval_defs)
  have p4: "prefix ''LL('' (cleanup (strip (?four ! 5)))"
    unfolding c4 by simp
  have m4: "search_ll (cleanup (strip (?four ! 5))) = Some (''1:2:3:4'', ''5:6:7'')"
    unfolding c4 by (simp add: match_ll_def)
  have h: "split_str '':'' (strip ''1:2:3:4'') = ''1'' # ''2'' # ''3'' # [''4'']
      \<and> split_str '':'' (strip ''5:6:7'') = ''5'' # ''6'' # ''7'' # []
      \<and> float_literal ''1'' = Some 1 \<and> float_literal ''2'' = Some 2 \<and> float_literal ''3'' = Some 3
      \<and> float_literal ''5'' = Some 5 \<and> float_literal ''6'' = Some 6 \<and> float_literal ''7'' = Some 7
      \<and> (\<forall>p \<in> set ([''4''] @ []). float_literal p \<noteq> None)"
    by (simp add: eval_defs)
  have "lng (fst (process_row float_literal ?g ?four ())) =
          Some (if (1::rat) < 0 then - (\<bar>1\<bar> + 2 / 60 + 3 / 3600) else \<bar>1\<bar> + 2 / 60 + 3 / 3600)
        \<and> lat (fst (process_row float_literal ?g ?four ())) =
          Some (if (5::rat) < 0 then - (\<bar>5\<bar> + 6 / 60 + 7 / 3600) else \<bar>5\<bar> + 6 / 60 + 7 / 3600)"
    using ll_decode_fails_iff[OF p4 m4, of float_literal ?g "()"] h
    by blast
  then have good: "lng (fst (process_row float_literal ?g ?four ())) = Some (1241 / 1200)
      \<and> lat (fst (process_row float_literal ?g ?four ())) = Some (18367 / 3600)"
    by simp
  from bad good show ?thesis
    by blast
qed

section \<open>One row\<close>

lemma new_incident_no_coordinates:
  "(new_incident cells)\<lparr> lat := None, lng := None \<rparr> = new_incident cells"
  by (simp add: new_incident_def)

lemma new_incident_street: "street (new_incident cells) = strip (cells ! 5)"
  by (simp add: new_incident_def)

lemma new_incident_label: "nearest_intersection (new_incident cells) = []"
  by (simp add: new_incident_def)

lemma process_row_ll_failed:
  assumes "prefix ''LL('' (cleanup (strip (cells ! 5)))"
    and "parse_ll pyfloat (cleanup (strip (cells ! 5))) = Inl f"
  shows "process_row pyfloat geolocator cells w = (new_incident cells, [], w)"
  using assms
  by (simp add: process_row_def Let_def new_incident_no_coordinates new_incident_street)

lemma process_row_ll_decoded:
  assumes "prefix ''LL('' (cleanup (strip (cells ! 5)))"
    and "parse_ll pyfloat (cleanup (strip (cells ! 5))) = Inr (la, lo)"
    and "get_nearest_intersection geolocator (Some la) (Some lo) w = (x, evs, w')"
  shows "process_row pyfloat geolocator cells w =
         ((new_incident cells)\<lparr> lng := Some lo, lat := Some la, nearest_intersection := x \<rparr>, evs, w')"
  using assms
  by (simp add: process_row_def Let_def new_incident_street new_incident_label)

lemma process_row_geocoded:
  assumes "\<not> prefix ''LL('' (cleanup (strip (cells ! 5)))"
    and "geocode geolocator (address_to_geocode (cleanup (strip (cells ! 5))) @ '', Richmond, VA'') w
         = (GeocodeLocation la lo, w1)"
    and "get_nearest_intersection geolocator (Some la) (Some lo) w1 = (x, evs, w2)"
  shows "process_row pyfloat geolocator cells w =
         ((new_incident cells)\<lparr> lat := Some la, lng := Some lo, nearest_intersection := x \<rparr>,
          Geocode (address_to_geocode (cleanup (strip (cells ! 5))) @ '', Richmond, VA'')
            # evs @ [Sleep (11 / 10)], w2)"
  using assms
  by (simp add: process_row_def Let_def new_incident_street new_incident_label)

lemma process_row_not_geocoded:
  assumes "\<not> prefix ''LL('' (cleanup (strip (cells ! 5)))"
    and "geocode geolocator (address_to_geocode (cleanup (strip (cells ! 5))) @ '', Richmond, VA'') w
         = (r, w1)"
    and "\<forall>la lo. r \<noteq> GeocodeLocation la lo"
  shows "process_row pyfloat geolocator cells w =
         (new_incident cells,
          [Geocode (address_to_geocode (cleanup (strip (cells ! 5))) @ '', Richmond, VA''),
           Sleep (11 / 10)], w1)"
  using assms
  by (cases r) (simp_all add: process_row_def Let_def new_incident_street new_incident_no_coordinates)

lemma process_row_cases:
  obtains
    (ll_failed) f where "prefix ''LL('' (cleanup (strip (cells ! 5)))"
      and "parse_ll pyfloat (cleanup (strip (cells ! 5))) = Inl f"
      and "process_row pyfloat geolocator cells w = (new_incident cells, [], w)"
  | (ll_decoded) la lo x evs w' where "prefix ''LL('' (cleanup (strip (cells ! 5)))"
      and "parse_ll pyfloat (cleanup (strip (cells ! 5))) = Inr (la, lo)"
      and "get_nearest_intersection geolocator (Some la) (Some lo) w = (x, evs, w')"
      and "process_row pyfloat geolocator cells w =
         ((new_incident cells)\<lparr> lng := Some lo, lat := Some la, nearest_intersection := x \<rparr>, evs, w')"
  | (geocoded) la lo w1 x evs w2 where "\<not> prefix ''LL('' (cleanup (strip (cells ! 5)))"
      and "geocode geolocator (address_to_geocode (cleanup (strip (cells ! 5))) @ '', Richmond, VA'') w
         = (GeocodeLocation la lo, w1)"
      and "get_nearest_intersection geolocator (Some la) (Some lo) w1 = (x, evs, w2)"
      and "process_row pyfloat geolocator cells w =
         ((new_incident cells)\<lparr> lat := Some la, lng := Some lo, nearest_intersection := x \<rparr>,
          Geocode (address_to_geocode (cleanup (strip (cells ! 5))) @ '', Richmond, VA'')
            # evs @ [Sleep (11 / 10)], w2)"
  | (not_geocoded) r w1 where "\<not> prefix ''LL('' (cleanup (strip (cells ! 5)))"
      and "geocode geolocator (address_to_geocode (cleanup (strip (cells ! 5))) @ '', Richmond, VA'') w
         = (r, w1)"
      and "\<forall>la lo. r \<noteq> GeocodeLocation la lo"
      and "process_row pyfloat geolocator cells w =
         (new_incident cells,
          [Geocode (address_to_geocode (cleanup (strip (cells ! 5))) @ '', Richmond, VA''),
           Sleep (11 / 10)], w1)"
proof (cases "prefix ''LL('' (cleanup (strip (cells ! 5)))")
  case True
  show ?thesis
  proof (cases "parse_ll pyfloat (cleanup (strip (cells ! 5)))")
    case (Inl f)
    from True Inl process_row_ll_failed[OF True Inl] show ?thesis
      by (rule ll_failed)
  next
    case (Inr p)
    obtain la lo where p: "p = (la, lo)"
      by (cases p) auto
    obtain x evs w' where g: "get_nearest_intersection geolocator (Some la) (Some lo) w = (x, evs, w')"
      by (cases "get_nearest_intersection geolocator (Some la) (Some lo) w") auto
    from Inr p have i: "parse_ll pyfloat (cleanup (strip (cells ! 5))) = Inr (la, lo)"
      by simp
    from True i g process_row_ll_decoded[OF True i g] show ?thesis
      by (rule ll_decoded)
  qed
next
  case False
  obtain r w1 where g:
    "geocode geolocator (address_to_geocode (cleanup (strip (cells ! 5))) @ '', Richmond, VA'') w = (r, w1)"
    by (cases "geocode geolocator (address_to_geocode (cleanup (strip (cells ! 5))) @ '', Richmond, VA'') w") auto
  show ?thesis
  proof (cases "\<exists>la lo. r = GeocodeLocation la lo")
    case True
    then obtain la lo where r: "r = GeocodeLocation la lo"
      by blast
    obtain x evs w2 where n: "get_nearest_intersection geolocator (Some la) (Some lo) w1 = (x, evs, w2)"
      by (cases "get_nearest_intersection geolocator (Some la) (Some lo) w1") auto
    from g r have g': "geocode geolocator (address_to_geocode (cleanup (strip (cells ! 5))) @ '', Richmond, VA'') w
         = (GeocodeLocation la lo, w1)"
      by simp
    from False g' n process_row_geocoded[OF False g' n] show ?thesis
      by (rule geocoded)
  next
    case no: False
    then have "\<forall>la lo. r \<noteq> GeocodeLocation la lo"
      by blast
    from False g this process_row_not_geocoded[OF False g this] show ?thesis
      by (rule not_geocoded)
  qed
qed

lemma process_row_keeps_fields:
  "(fst (process_row pyfloat geolocator cells w))\<lparr> lat := None, lng := None, nearest_intersection := [] \<rparr>
   = new_incident cells"
  by (rule process_row_cases[where cells = cells and pyfloat = pyfloat and geolocator = geolocator and w = w])
    (simp_all add: new_incident_def)

lemma process_row_absent:
  "lat (fst (process_row pyfloat geolocator cells w)) = None \<Longrightarrow>
   fst (process_row pyfloat geolocator cells w) = new_incident cells"
  by (rule process_row_cases[where cells = cells and pyfloat = pyfloat and geolocator = geolocator and w = w])
    simp_all

text \<open>
  C1, as stated, fails: for a row whose cleaned street starts with \<^verbatim>\<open>LL(\<close> and whose
  decode fails, the program makes no forward-geocoding call (it makes no call at all), so
  no address fragment is ever tried as a fallback.
\<close>

theorem failed_ll_not_geocoded:
  "prefix ''LL('' (cleanup (strip ''LL(1:2,3:4:5)''))
   \<and> parse_ll float_literal (cleanup (strip ''LL(1:2,3:4:5)'')) = Inl (Raised IndexError)
   \<and> process_row float_literal (stub_geolocator (GeocodeLocation 37 (- 77)) ReverseNone)
        [''10:15'', ''FIRE'', ''B12'', '''', ''ALARM'', ''LL(1:2,3:4:5)'', ''Dispatched''] ()
      = (new_incident [''10:15'', ''FIRE'', ''B12'', '''', ''ALARM'', ''LL(1:2,3:4:5)'', ''Dispatched''], [], ())"
  by (simp add: process_row_def new_incident_def parse_ll_def match_ll_def dms_to_dd_def eval_defs)

text \<open>
  C1, amended. For every cleaned street that starts with \<^verbatim>\<open>LL(\<close> and whose decode fails
  (no envelope match, or a malformed group), the row is emitted with latitude and
  longitude absent and an empty nearest intersection, and no geocoding call is made.
\<close>

theorem failed_ll_unresolved:
  assumes "prefix ''LL('' (cleanup (strip (cells ! 5)))"
    and "parse_ll pyfloat (cleanup (strip (cells ! 5))) = Inl f"
  shows "process_row pyfloat geolocator cells w = (new_incident cells, [], w)
         \<and> lat (new_incident cells) = None \<and> lng (new_incident cells) = None
         \<and> nearest_intersection (new_incident cells) = []"
  using assms by (simp add: process_row_ll_failed) (simp add: new_incident_def)

theorem failed_ll_unresolved_witness:
  "process_row float_literal (stub_geolocator (GeocodeLocation 37 (- 77)) ReverseNone)
        [''10:15'', ''FIRE'', ''B12'', '''', ''ALARM'', ''LL(abc'', ''Dispatched''] ()
      = (new_incident [''10:15'', ''FIRE'', ''B12'', '''', ''ALARM'', ''LL(abc'', ''Dispatched''], [], ())"
proof -
  let ?cells = "[''10:15'', ''FIRE'', ''B12'', '''', ''ALARM'', ''LL(abc'', ''Dispatched'']"
  have c: "cleanup (strip (?cells ! 5)) = ''LL(abc''"
    by (simp add: eval_defs)
  have p: "prefix ''LL('' (cleanup (strip (?cells ! 5)))"
    unfolding c by simp
  have f: "parse_ll float_literal (cleanup (strip (?cells ! 5))) = Inl NoMatch"
    unfolding c by (simp add: parse_ll_def match_ll_def)
  show ?thesis
    using failed_ll_unresolved[OF p f, of "stub_geolocator (GeocodeLocation 37 (- 77)) ReverseNone" "()"]
    by simp
qed

section \<open>The loop\<close>

lemma scrape_rows_incidents:
  "map (\<lambda>i. i\<lparr> lat := None, lng := None, nearest_intersection := [] \<rparr>)
       (fst (scrape_rows pyfloat geolocator rows w))
   = map new_incident (filter (\<lambda>cells. 7 \<le> length cells) rows)"
proof (induction rows arbitrary: w)
  case Nil
  show ?case by simp
next
  case (Cons cells rows)
  show ?case
  proof (cases "7 \<le> length cells")
    case True
    obtain i evs w1 where p: "process_row pyfloat geolocator cells w = (i, evs, w1)"
      by (cases "process_row pyfloat geolocator cells w") auto
    obtain incs evs' w2 where s: "scrape_rows pyfloat geolocator rows w1 = (incs, evs', w2)"
      by (cases "scrape_rows pyfloat geolocator rows w1") auto
    from p have "i\<lparr> lat := None, lng := None, nearest_intersection := [] \<rparr> = new_incident cells"
      using process_row_keeps_fields[of pyfloat geolocator cells w] by simp
    moreover from s have "map (\<lambda>i. i\<lparr> lat := None, lng := None, nearest_intersection := [] \<rparr>) incs
         = map new_incident (filter (\<lambda>cells. 7 \<le> length cells) rows)"
      using Cons.IH[of w1] by simp
    ultimately show ?thesis using True p s by simp
  next
    case False
    then show ?thesis using Cons.IH[of w] by simp
  qed
qed

lemma scrape_rows_absent:
  "i \<in> set (fst (scrape_rows pyfloat geolocator rows w)) \<Longrightarrow> lat i = None \<Longrightarrow>
   lng i = None \<and> nearest_intersection i = []"
proof (induction rows arbitrary: w)
  case Nil
  then show ?case by simp
next
  case (Cons cells rows)
  show ?case
  proof (cases "7 \<le> length cells")
    case True
    obtain j evs w1 where p: "process_row pyfloat geolocator cells w = (j, evs, w1)"
      by (cases "process_row pyfloat geolocator cells w") auto
    obtain incs evs' w2 where s: "scrape_rows pyfloat geolocator rows w1 = (incs, evs', w2)"
      by (cases "scrape_rows pyfloat geolocator rows w1") auto
    from Cons.prems(1) True p s have "i = j \<or> i \<in> set (fst (scrape_rows pyfloat geolocator rows w1))"
      by simp
    then show ?thesis
    proof
      assume "i = j"
      with p Cons.prems(2) have "i = new_incident cells"
        using process_row_absent[of pyfloat geolocator cells w] by simp
      then show ?thesis by (simp add: new_incident_def)
    next
      assume "i \<in> set (fst (scrape_rows pyfloat geolocator rows w1))"
      then show ?thesis using Cons.IH Cons.prems(2) by blast
    qed
  next
    case False
    then show ?thesis using Cons.IH[of w] Cons.prems by simp
  qed
qed

lemma process_row_failure:
  assumes "prefix ''LL('' (cleanup (strip (cells ! 5)))
           \<and> (\<exists>f. parse_ll pyfloat (cleanup (strip (cells ! 5))) = Inl f)
         \<or> \<not> prefix ''LL('' (cleanup (strip (cells ! 5)))
           \<and> (\<forall>la lo. fst (geocode geolocator
                (address_to_geocode (cleanup (strip (cells ! 5))) @ '', Richmond, VA'') w)
              \<noteq> GeocodeLocation la lo)"
  shows "fst (process_row pyfloat geolocator cells w) = new_incident cells"
  using assms
  by (rule_tac process_row_cases[where cells = cells and pyfloat = pyfloat and geolocator = geolocator and w = w])
    auto

lemma scrape_rows_append:
  "scrape_rows pyfloat geolocator (rows1 @ rows2) w =
   (fst (scrape_rows pyfloat geolocator rows1 w)
      @ fst (scrape_rows pyfloat geolocator rows2 (snd (snd (scrape_rows pyfloat geolocator rows1 w)))),
    fst (snd (scrape_rows pyfloat geolocator rows1 w))
      @ fst (snd (scrape_rows pyfloat geolocator rows2 (snd (snd (scrape_rows pyfloat geolocator rows1 w))))),
    snd (snd (scrape_rows pyfloat geolocator rows2 (snd (snd (scrape_rows pyfloat geolocator rows1 w))))))"
proof (induction rows1 arbitrary: w)
  case Nil
  show ?case by simp
next
  case (Cons cells rows1)
  show ?case
  proof (cases "7 \<le> length cells")
    case True
    then show ?thesis
      using Cons.IH[of "snd (snd (process_row pyfloat geolocator cells w))"]
      by (simp add: case_prod_beta)
  next
    case False
    then show ?thesis
      using Cons.IH[of w] by simp
  qed
qed

lemma scrape_rows_at_row:
  assumes "7 \<le> length cells"
  shows "fst (scrape_rows pyfloat geolocator (rows1 @ cells # rows2) w) =
         fst (scrape_rows pyfloat geolocator rows1 w)
         @ fst (process_row pyfloat geolocator cells (snd (snd (scrape_rows pyfloat geolocator rows1 w))))
         # fst (scrape_rows pyfloat geolocator rows2
               (snd (snd (process_row pyfloat geolocator cells
                  (snd (snd (scrape_rows pyfloat geolocator rows1 w)))))))"
  using assms
  by (simp add: scrape_rows_append[of pyfloat geolocator rows1 "cells # rows2" w] case_prod_beta)

lemma process_row_success:
  assumes "\<not> prefix ''LL('' (cleanup (strip (cells ! 5)))"
    and "geocode geolocator (address_to_geocode (cleanup (strip (cells ! 5))) @ '', Richmond, VA'') w
         = (GeocodeLocation la lo, w1)"
  shows "lat (fst (process_row pyfloat geolocator cells w)) = Some la
         \<and> lng (fst (process_row pyfloat geolocator cells w)) = Some lo
         \<and> nearest_intersection (fst (process_row pyfloat geolocator cells w))
             = fst (get_nearest_intersection geolocator (Some la) (Some lo) w1)"
proof -
  obtain x evs w2 where g: "get_nearest_intersection geolocator (Some la) (Some lo) w1 = (x, evs, w2)"
    by (cases "get_nearest_intersection geolocator (Some la) (Some lo) w1") auto
  from process_row_geocoded[OF assms g, of pyfloat] g show ?thesis
    by simp
qed

text \<open>
  C9. The incidents emitted are, in row order, exactly one per row of at least seven
  cells: each is the incident built from the cells of its row, up to its coordinates and
  its nearest intersection. An incident without latitude has no longitude and an empty
  nearest intersection; a row whose decode fails, or whose forward geocoding gives no
  location, is emitted as built from its cells. Whatever happened on the rows before it,
  a row of at least seven cells is processed in the state of the service that those rows
  left, its incident follows theirs, and the rows after it are processed in turn; when
  its forward geocoding gives a location there, the incident carries that location and
  the label found for it.
\<close>

theorem every_row_emitted:
  "map (\<lambda>i. i\<lparr> lat := None, lng := None, nearest_intersection := [] \<rparr>)
       (fst (scrape_rows pyfloat geolocator rows w))
     = map new_incident (filter (\<lambda>cells. 7 \<le> length cells) rows)
   \<and> (\<forall>i \<in> set (fst (scrape_rows pyfloat geolocator rows w)).
        lat i = None \<longrightarrow> lng i = None \<and> nearest_intersection i = [])
   \<and> (prefix ''LL('' (cleanup (strip (cells ! 5)))
           \<and> (\<exists>f. parse_ll pyfloat (cleanup (strip (cells ! 5))) = Inl f)
         \<or> \<not> prefix ''LL('' (cleanup (strip (cells ! 5)))
           \<and> (\<forall>la lo. fst (geocode geolocator
                (address_to_geocode (cleanup (strip (cells ! 5))) @ '', Richmond, VA'') w')
              \<noteq> GeocodeLocation la lo)
       \<longrightarrow> fst (process_row pyfloat geolocator cells w') = new_incident cells)
   \<and> (7 \<le> length cells \<longrightarrow>
        fst (scrape_rows pyfloat geolocator (rows1 @ cells # rows2) w) =
          fst (scrape_rows pyfloat geolocator rows1 w)
          @ fst (process_row pyfloat geolocator cells (snd (snd (scrape_rows pyfloat geolocator rows1 w))))
          # fst (scrape_rows pyfloat geolocator rows2
                (snd (snd (process_row pyfloat geolocator cells
                   (snd (snd (scrape_rows pyfloat geolocator rows1 w))))))))
   \<and> (7 \<le> length cells \<and> \<not> prefix ''LL('' (cleanup (strip (cells ! 5)))
        \<and> geocode geolocator (address_to_geocode (cleanup (strip (cells ! 5))) @ '', Richmond, VA'')
             (snd (snd (scrape_rows pyfloat geolocator rows1 w))) = (GeocodeLocation la lo, w1)
       \<longrightarrow> lat (fst (scrape_rows pyfloat geolocator (rows1 @ cells # rows2) w)
                   ! length (fst (scrape_rows pyfloat geolocator rows1 w))) = Some la
           \<and> lng (fst (scrape_rows pyfloat geolocator (rows1 @ cells # rows2) w)
                   ! length (fst (scrape_rows pyfloat geolocator rows1 w))) = Some lo
           \<and> nearest_intersection (fst (scrape_rows pyfloat geolocator (rows1 @ cells # rows2) w)
                   ! length (fst (scrape_rows pyfloat geolocator rows1 w)))
               = fst (get_nearest_intersection geolocator (Some la) (Some lo) w1))"
proof (intro conjI ballI impI)
  show "map (\<lambda>i. i\<lparr> lat := None, lng := None, nearest_intersection := [] \<rparr>)
       (fst (scrape_rows pyfloat geolocator rows w))
     = map new_incident (filter (\<lambda>cells. 7 \<le> length cells) rows)"
    by (rule scrape_rows_incidents)
next
  fix i
  assume "i \<in> set (fst (scrape_rows pyfloat geolocator rows w))" "lat i = None"
  then show "lng i = None" "nearest_intersection i = []"
    by (blast dest: scrape_rows_absent)+
next
  assume "prefix ''LL('' (cleanup (strip (cells ! 5)))
           \<and> (\<exists>f. parse_ll pyfloat (cleanup (strip (cells ! 5))) = Inl f)
         \<or> \<not> prefix ''LL('' (cleanup (strip (cells ! 5)))
           \<and> (\<forall>la lo. fst (geocode geolocator
                (address_to_geocode (cleanup (strip (cells ! 5))) @ '', Richmond, VA'') w')
              \<noteq> GeocodeLocation la lo)"
  then show "fst (process_row pyfloat geolocator cells w') = new_incident cells"
    by (rule process_row_failure)
next
  assume "7 \<le> length cells"
  then show "fst (scrape_rows pyfloat geolocator (rows1 @ cells # rows2) w) =
          fst (scrape_rows pyfloat geolocator rows1 w)
          @ fst (process_row pyfloat geolocator cells (snd (snd (scrape_rows pyfloat geolocator rows1 w))))
          # fst (scrape_rows pyfloat geolocator rows2
                (snd (snd (process_row pyfloat geolocator cells
                   (snd (snd (scrape_rows pyfloat geolocator rows1 w)))))))"
    by (rule scrape_rows_at_row)
next
  assume a: "7 \<le> length cells \<and> \<not> prefix ''LL('' (cleanup (strip (cells ! 5)))
        \<and> geocode geolocator (address_to_geocode (cleanup (strip (cells ! 5))) @ '', Richmond, VA'')
             (snd (snd (scrape_rows pyfloat geolocator rows1 w))) = (GeocodeLocation la lo, w1)"
  then have n: "fst (scrape_rows pyfloat geolocator (rows1 @ cells # rows2) w)
                   ! length (fst (scrape_rows pyfloat geolocator rows1 w))
      = fst (process_row pyfloat geolocator cells (snd (snd (scrape_rows pyfloat geolocator rows1 w))))"
    by (simp add: scrape_rows_at_row)
  from a have s: "lat (fst (process_row pyfloat geolocator cells (snd (snd (scrape_rows pyfloat geolocator rows1 w))))) = Some la
         \<and> lng (fst (process_row pyfloat geolocator cells (snd (snd (scrape_rows pyfloat geolocator rows1 w))))) = Some lo
         \<and> nearest_intersection (fst (process_row pyfloat geolocator cells (snd (snd (scrape_rows pyfloat geolocator rows1 w)))))
             = fst (get_nearest_intersection geolocator (Some la) (Some lo) w1)"
    by (intro process_row_success) auto
  from s show "lat (fst (scrape_rows pyfloat geolocator (rows1 @ cells # rows2) w)
                   ! length (fst (scrape_rows pyfloat geolocator rows1 w))) = Some la"
    unfolding n by blast
  from s show "lng (fst (scrape_rows pyfloat geolocator (rows1 @ cells # rows2) w)
                   ! length (fst (scrape_rows pyfloat geolocator rows1 w))) = Some lo"
    unfolding n by blast
  from s show "nearest_intersection (fst (scrape_rows pyfloat geolocator (rows1 @ cells # rows2) w)
                   ! length (fst (scrape_rows pyfloat geolocator rows1 w)))
               = fst (get_nearest_intersection geolocator (Some la) (Some lo) w1)"
    unfolding n by blast
qed

lemmas eval_row_defs = process_row_def new_incident_def parse_ll_def match_ll_def dms_to_dd_def
  address_to_geocode_def get_nearest_intersection_def stub_geolocator_def match_dir_def

theorem every_row_emitted_witness:
  "fst (scrape_rows float_literal
        (stub_geolocator (GeocodeLocation 37 (- 77)) (ReverseAddress [''road'' \<mapsto> ''Main St'']))
     [[''10:15'', ''FIRE'', ''B12'', '''', ''ALARM'', ''LL(abc'', ''Dispatched''],
      [''header''],
      [''10:20'', ''EMS'', ''B07'', '''', ''MEDICAL'', ''100-BLK MAIN ST RICH'', ''Enroute'']] ())
   = [new_incident [''10:15'', ''FIRE'', ''B12'', '''', ''ALARM'', ''LL(abc'', ''Dispatched''],
      (new_incident [''10:20'', ''EMS'', ''B07'', '''', ''MEDICAL'', ''100-BLK MAIN ST RICH'', ''Enroute''])
        \<lparr> nearest_intersection := ''Main St'', lat := Some 37, lng := Some (- 77) \<rparr>]"
proof -
  let ?r1 = "[''10:15'', ''FIRE'', ''B12'', '''', ''ALARM'', ''LL(abc'', ''Dispatched'']"
  let ?r3 = "[''10:20'', ''EMS'', ''B07'', '''', ''MEDICAL'', ''100-BLK MAIN ST RICH'', ''Enroute'']"
  let ?g = "stub_geolocator (GeocodeLocation 37 (- 77)) (ReverseAddress [''road'' \<mapsto> ''Main St''])"
  let ?run = "fst (scrape_rows float_literal ?g [?r1, [''header''], ?r3] ())"
  have c1: "cleanup (strip (?r1 ! 5)) = ''LL(abc''"
    by (simp add: eval_defs)
  have c3: "cleanup (strip (?r3 ! 5)) = ''100 MAIN ST''"
    by (simp add: eval_defs)
  have f1: "prefix ''LL('' (cleanup (strip (?r1 ! 5)))
           \<and> (\<exists>f. parse_ll float_literal (cleanup (strip (?r1 ! 5))) = Inl f)"
    unfolding c1 by (simp add: parse_ll_def match_ll_def)
  have p1: "fst (process_row float_literal ?g ?r1 ()) = new_incident ?r1"
    using every_row_emitted[where pyfloat = float_literal and geolocator = ?g and cells = ?r1 and w' = "()"] f1
    by blast
  have before: "fst (scrape_rows float_literal ?g [?r1, [''header'']] ()) = [new_incident ?r1]"
    using p1 by (simp add: case_prod_beta)
  have g3: "7 \<le> length ?r3 \<and> \<not> prefix ''LL('' (cleanup (strip (?r3 ! 5)))
        \<and> geocode ?g (address_to_geocode (cleanup (strip (?r3 ! 5))) @ '', Richmond, VA'')
             (snd (snd (scrape_rows float_literal ?g [?r1, [''header'']] ()))) = (GeocodeLocation 37 (- 77), ())"
    unfolding c3 by (simp add: stub_geolocator_def)
  have label: "fst (get_nearest_intersection ?g (Some 37) (Some (- 77)) ()) = ''Main St''"
    by (simp add: get_nearest_intersection_def stub_geolocator_def intersection_label_def
        road_of_def suburb_of_def)
  have e: "[?r1, [''header'']] @ ?r3 # [] = [?r1, [''header''], ?r3]"
    by simp
  have l: "length (fst (scrape_rows float_literal ?g [?r1, [''header'']] ())) = 1"
    unfolding before by simp
  have third: "lat (?run ! 1) = Some 37 \<and> lng (?run ! 1) = Some (- 77)
      \<and> nearest_intersection (?run ! 1) = ''Main St''"
    using every_row_emitted[where pyfloat = float_literal and geolocator = ?g and cells = ?r3
          and ?rows1.0 = "[?r1, [''header'']]" and ?rows2.0 = "[]" and w = "()" and la = 37 and lo = "- 77"
          and ?w1.0 = "()", THEN conjunct2, THEN conjunct2, THEN conjunct2, THEN conjunct2, THEN mp, OF g3]
    unfolding e l label .
  have shape: "map (\<lambda>i. i\<lparr> lat := None, lng := None, nearest_intersection := [] \<rparr>) ?run
      = map new_incident (filter (\<lambda>cells. 7 \<le> length cells) [?r1, [''header''], ?r3])"
    using every_row_emitted[where pyfloat = float_literal and geolocator = ?g
          and rows = "[?r1, [''header''], ?r3]" and w = "()", THEN conjunct1] .
  have e0: "[] @ ?r1 # [[''header''], ?r3] = [?r1, [''header''], ?r3]"
    by simp
  have "?run = fst (scrape_rows float_literal ?g [] ())
          @ fst (process_row float_literal ?g ?r1 (snd (snd (scrape_rows float_literal ?g [] ()))))
          # fst (scrape_rows float_literal ?g [[''header''], ?r3]
                (snd (snd (process_row float_literal ?g ?r1
                   (snd (snd (scrape_rows float_literal ?g [] ())))))))"
    using every_row_emitted[where pyfloat = float_literal and geolocator = ?g and cells = ?r1
          and ?rows1.0 = "[]" and ?rows2.0 = "[[''header''], ?r3]" and w = "()",
          THEN conjunct2, THEN conjunct2, THEN conjunct2, THEN conjunct1, THEN mp]
    unfolding e0 by simp
  then have first: "?run ! 0 = new_incident ?r1"
    using p1 by simp
  from shape have "map (\<lambda>i. i\<lparr> lat := None, lng := None, nearest_intersection := [] \<rparr>) ?run
      = [new_incident ?r1, new_incident ?r3]"
    by simp
  then obtain a b where ab: "?run = [a, b]"
    and b: "b\<lparr> lat := None, lng := None, nearest_intersection := [] \<rparr> = new_incident ?r3"
    by (auto simp: map_eq_Cons_conv)
  from first ab have a: "a = new_incident ?r1"
    by simp
  from third ab have "lat b = Some 37" "lng b = Some (- 77)" "nearest_intersection b = ''Main St''"
    by simp_all
  with b have "b = (new_incident ?r3)\<lparr> nearest_intersection := ''Main St'', lat := Some 37, lng := Some (- 77) \<rparr>"
    by (cases b) (auto simp: new_incident_def)
  with a ab show ?thesis
    by simp
qed

section \<open>The sequence of calls and sleeps\<close>

lemma get_nearest_intersection_events:
  "get_nearest_intersection geolocator (Some la) (Some lo) w = (x, evs, w') \<Longrightarrow> evs = [Reverse la lo]"
  by (auto simp: get_nearest_intersection_def split: prod.splits reverse_reply.splits)

lemma process_row_events:
  obtains
    (ll) "prefix ''LL('' (cleanup (strip (cells ! 5)))"
      and "fst (snd (process_row pyfloat geolocator cells w)) = []
           \<or> (\<exists>la lo. fst (snd (process_row pyfloat geolocator cells w)) = [Reverse la lo])"
  | (plain) mid where "\<not> prefix ''LL('' (cleanup (strip (cells ! 5)))"
      and "fst (snd (process_row pyfloat geolocator cells w)) =
           Geocode (address_to_geocode (cleanup (strip (cells ! 5))) @ '', Richmond, VA'')
             # mid @ [Sleep (11 / 10)]"
      and "mid = [] \<or> (\<exists>la lo. mid = [Reverse la lo])"
proof (rule process_row_cases[where cells = cells and pyfloat = pyfloat and geolocator = geolocator and w = w])
  fix f
  assume "prefix ''LL('' (cleanup (strip (cells ! 5)))"
    and "process_row pyfloat geolocator cells w = (new_incident cells, [], w)"
  then show thesis
    by (intro ll) simp_all
next
  fix la lo x evs w'
  assume "prefix ''LL('' (cleanup (strip (cells ! 5)))"
    and "get_nearest_intersection geolocator (Some la) (Some lo) w = (x, evs, w')"
    and "process_row pyfloat geolocator cells w =
         ((new_incident cells)\<lparr> lng := Some lo, lat := Some la, nearest_intersection := x \<rparr>, evs, w')"
  then show thesis
    by (intro ll) (auto dest: get_nearest_intersection_events)
next
  fix la lo w1 x evs w2
  assume "\<not> prefix ''LL('' (cleanup (strip (cells ! 5)))"
    and "get_nearest_intersection geolocator (Some la) (Some lo) w1 = (x, evs, w2)"
    and "process_row pyfloat geolocator cells w =
         ((new_incident cells)\<lparr> lat := Some la, lng := Some lo, nearest_intersection := x \<rparr>,
          Geocode (address_to_geocode (cleanup (strip (cells ! 5))) @ '', Richmond, VA'')
            # evs @ [Sleep (11 / 10)], w2)"
  then show thesis
    by (intro plain[of evs]) (auto dest: get_nearest_intersection_events)
next
  fix r w1
  assume "\<not> prefix ''LL('' (cleanup (strip (cells ! 5)))"
    and "process_row pyfloat geolocator cells w =
         (new_incident cells,
          [Geocode (address_to_geocode (cleanup (strip (cells ! 5))) @ '', Richmond, VA''),
           Sleep (11 / 10)], w1)"
  then show thesis
    by (intro plain[of "[]"]) simp_all
qed

lemma row_keeps_rested:
  "delay_between_geocodes True (fst (snd (process_row pyfloat geolocator cells w)) @ rest)
   = delay_between_geocodes True rest"
  by (rule process_row_events[where cells = cells and pyfloat = pyfloat and geolocator = geolocator and w = w])
    auto

lemma scrape_rows_spaced:
  "delay_between_geocodes True (fst (snd (scrape_rows pyfloat geolocator rows w)))"
proof (induction rows arbitrary: w)
  case Nil
  show ?case by simp
next
  case (Cons cells rows)
  show ?case
  proof (cases "7 \<le> length cells")
    case True
    obtain i evs w1 where p: "process_row pyfloat geolocator cells w = (i, evs, w1)"
      by (cases "process_row pyfloat geolocator cells w") auto
    obtain incs evs' w2 where s: "scrape_rows pyfloat geolocator rows w1 = (incs, evs', w2)"
      by (cases "scrape_rows pyfloat geolocator rows w1") auto
    have "delay_between_geocodes True (evs @ evs') = delay_between_geocodes True evs'"
      using row_keeps_rested[of pyfloat geolocator cells w evs'] p by simp
    moreover have "delay_between_geocodes True evs'"
      using Cons.IH[of w1] s by simp
    ultimately show ?thesis
      using True p s by simp
  next
    case False
    then show ?thesis using Cons.IH[of w] by simp
  qed
qed

lemma process_row_plain_events:
  assumes "\<not> prefix ''LL('' (cleanup (strip (cells ! 5)))"
  shows "\<exists>mid. fst (snd (process_row pyfloat geolocator cells w)) =
           Geocode (address_to_geocode (cleanup (strip (cells ! 5))) @ '', Richmond, VA'')
             # mid @ [Sleep (11 / 10)]"
  using assms
  by (rule_tac process_row_events[where cells = cells and pyfloat = pyfloat and geolocator = geolocator and w = w])
    auto

lemma scrape_rows_first_event:
  assumes "7 \<le> length cells" and "\<not> prefix ''LL('' (cleanup (strip (cells ! 5)))"
  shows "\<exists>rest. fst (snd (scrape_rows pyfloat geolocator (cells # rows) w)) =
           Geocode (address_to_geocode (cleanup (strip (cells ! 5))) @ '', Richmond, VA'') # rest"
proof -
  from process_row_plain_events[OF assms(2), of pyfloat geolocator w] obtain mid where
    "fst (snd (process_row pyfloat geolocator cells w)) =
       Geocode (address_to_geocode (cleanup (strip (cells ! 5))) @ '', Richmond, VA'')
         # mid @ [Sleep (11 / 10)]"
    by blast
  with assms(1) show ?thesis
    by (simp add: case_prod_beta)
qed

text \<open>
  C2, as stated, fails: for a single plain-address row the first event of the run is the
  forward-geocoding call, with no sleep before it; the sleep comes after the call.
\<close>

theorem calls_without_delay:
  "fst (snd (scrape_rows float_literal (stub_geolocator GeocodeNone ReverseNone)
     [[''10:20'', ''EMS'', ''B07'', '''', ''MEDICAL'', ''100-BLK MAIN ST RICH'', ''Enroute'']] ()))
     = [Geocode ''100 MAIN ST, Richmond, VA'', Sleep (11 / 10)]
   \<and> \<not> delay_before_each_call False [Geocode ''100 MAIN ST, Richmond, VA'', Sleep (11 / 10)]"
  by (simp add: eval_row_defs eval_defs)

text \<open>
  C2, amended. The processing of a row that goes through forward geocoding has the
  forward-geocoding call as its first event and a sleep of 1.1 as its last event. So in
  the events of a whole run a sleep of 1.1 lies between any two forward-geocoding calls.
  The sleep follows the call and does not precede it: when the first row of a run is such
  a row, its forward-geocoding call is the first event of the run.
\<close>

theorem delay_after_forward_geocoding:
  "delay_between_geocodes True (fst (snd (scrape_rows pyfloat geolocator rows w)))
   \<and> (\<not> prefix ''LL('' (cleanup (strip (cells ! 5))) \<longrightarrow>
        (\<exists>mid. fst (snd (process_row pyfloat geolocator cells w')) =
                 Geocode (address_to_geocode (cleanup (strip (cells ! 5))) @ '', Richmond, VA'')
                   # mid @ [Sleep (11 / 10)]))
   \<and> (7 \<le> length cells \<and> \<not> prefix ''LL('' (cleanup (strip (cells ! 5))) \<longrightarrow>
        (\<exists>rest. fst (snd (scrape_rows pyfloat geolocator (cells # rows) w)) =
                 Geocode (address_to_geocode (cleanup (strip (cells ! 5))) @ '', Richmond, VA'')
                   # rest))"
proof (intro conjI impI)
  show "delay_between_geocodes True (fst (snd (scrape_rows pyfloat geolocator rows w)))"
    by (rule scrape_rows_spaced)
next
  assume "\<not> prefix ''LL('' (cleanup (strip (cells ! 5)))"
  then show "\<exists>mid. fst (snd (process_row pyfloat geolocator cells w')) =
                 Geocode (address_to_geocode (cleanup (strip (cells ! 5))) @ '', Richmond, VA'')
                   # mid @ [Sleep (11 / 10)]"
    by (rule process_row_plain_events)
next
  assume "7 \<le> length cells \<and> \<not> prefix ''LL('' (cleanup (strip (cells ! 5)))"
  then show "\<exists>rest. fst (snd (scrape_rows pyfloat geolocator (cells # rows) w)) =
                 Geocode (address_to_geocode (cleanup (strip (cells ! 5))) @ '', Richmond, VA'')
                   # rest"
    using scrape_rows_first_event[of cells pyfloat geolocator rows w] by blast
qed

theorem delay_after_forward_geocoding_witness:
  "(\<exists>mid. fst (snd (process_row float_literal (stub_geolocator GeocodeNone ReverseNone)
       [''10:20'', ''EMS'', ''B07'', '''', ''MEDICAL'', ''100-BLK MAIN ST RICH'', ''Enroute''] ()))
     = Geocode ''100 MAIN ST, Richmond, VA'' # mid @ [Sleep (11 / 10)])
   \<and> (\<exists>rest. fst (snd (scrape_rows float_literal (stub_geolocator GeocodeNone ReverseNone)
       [[''10:20'', ''EMS'', ''B07'', '''', ''MEDICAL'', ''100-BLK MAIN ST RICH'', ''Enroute''],
        [''10:15'', ''FIRE'', ''B12'', '''', ''ALARM'', ''200 BROAD ST'', ''Dispatched'']] ()))
     = Geocode ''100 MAIN ST, Richmond, VA'' # rest)"
proof -
  let ?r = "[''10:20'', ''EMS'', ''B07'', '''', ''MEDICAL'', ''100-BLK MAIN ST RICH'', ''Enroute'']"
  let ?rows = "[[''10:15'', ''FIRE'', ''B12'', '''', ''ALARM'', ''200 BROAD ST'', ''Dispatched'']]"
  let ?g = "stub_geolocator GeocodeNone ReverseNone"
  have c: "cleanup (strip (?r ! 5)) = ''100 MAIN ST''"
    by (simp add: eval_defs)
  have n: "\<not> prefix ''LL('' (cleanup (strip (?r ! 5)))"
    unfolding c by simp
  have l: "7 \<le> length ?r \<and> \<not> prefix ''LL('' (cleanup (strip (?r ! 5)))"
    using n by simp
  have a: "address_to_geocode ''100 MAIN ST'' @ '', Richmond, VA'' = ''100 MAIN ST, Richmond, VA''"
    by (simp add: address_to_geocode_def)
  note t = delay_after_forward_geocoding[where pyfloat = float_literal and geolocator = ?g
      and cells = ?r and rows = ?rows and w = "()" and w' = "()"]
  from t[THEN conjunct2, THEN conjunct1, THEN mp, OF n]
  have 1: "\<exists>mid. fst (snd (process_row float_literal ?g ?r ()))
     = Geocode ''100 MAIN ST, Richmond, VA'' # mid @ [Sleep (11 / 10)]"
    unfolding c a .
  from t[THEN conjunct2, THEN conjunct2, THEN mp, OF l]
  have 2: "\<exists>rest. fst (snd (scrape_rows float_literal ?g (?r # ?rows) ()))
     = Geocode ''100 MAIN ST, Richmond, VA'' # rest"
    unfolding c a .
  from 1 2 show ?thesis
    by blast
qed

section \<open>The intersection label\<close>

lemma road_of_first_present:
  "road_of address = first_present address [''road'', ''street'', ''pedestrian'']"
  by (simp add: road_of_def first_present_def split: option.splits)

text \<open>
  C6. Without a latitude or without a longitude the label is empty and no call is made.
  With an address block in the reply, the road candidate is the first non-empty of the
  fields road, street, pedestrian; a candidate containing \<^verbatim>\<open>&\<close> or \<^verbatim>\<open>/\<close> is returned as it
  is; otherwise road and suburb give \<^verbatim>\<open>road, suburb\<close>, road alone gives road, suburb alone
  gives suburb, and neither gives the empty string.
\<close>

theorem intersection_heuristic:
  "get_nearest_intersection geolocator None lonv w = ([], [], w)
   \<and> get_nearest_intersection geolocator latv None w = ([], [], w)
   \<and> (reverse geolocator (la, lo) w = (ReverseAddress address, w') \<longrightarrow>
        get_nearest_intersection geolocator (Some la) (Some lo) w =
          (let road = first_present address [''road'', ''street'', ''pedestrian''];
               suburb = (case address ''suburb'' of Some s \<Rightarrow> s | None \<Rightarrow> [])
           in if CHR ''&'' \<in> set road \<or> CHR ''/'' \<in> set road then road
              else if road \<noteq> [] \<and> suburb \<noteq> [] then road @ '', '' @ suburb
              else if road \<noteq> [] then road
              else if suburb \<noteq> [] then suburb
              else [],
           [Reverse la lo], w'))"
proof (intro conjI impI)
  show "get_nearest_intersection geolocator None lonv w = ([], [], w)"
    by (simp add: get_nearest_intersection_def)
next
  show "get_nearest_intersection geolocator latv None w = ([], [], w)"
    by (cases latv) (simp_all add: get_nearest_intersection_def)
next
  assume "reverse geolocator (la, lo) w = (ReverseAddress address, w')"
  then show "get_nearest_intersection geolocator (Some la) (Some lo) w =
          (let road = first_present address [''road'', ''street'', ''pedestrian''];
               suburb = (case address ''suburb'' of Some s \<Rightarrow> s | None \<Rightarrow> [])
           in if CHR ''&'' \<in> set road \<or> CHR ''/'' \<in> set road then road
              else if road \<noteq> [] \<and> suburb \<noteq> [] then road @ '', '' @ suburb
              else if road \<noteq> [] then road
              else if suburb \<noteq> [] then suburb
              else [],
           [Reverse la lo], w')"
    by (auto simp: get_nearest_intersection_def intersection_label_def suburb_of_def Let_def
        road_of_first_present)
qed

theorem intersection_heuristic_witness:
  "fst (get_nearest_intersection
     (stub_geolocator GeocodeNone (ReverseAddress [''road'' \<mapsto> ''Main St & Broad St'', ''suburb'' \<mapsto> ''Downtown'']))
     (Some 37) (Some (- 77)) ()) = ''Main St & Broad St''
   \<and> fst (get_nearest_intersection
     (stub_geolocator GeocodeNone (ReverseAddress [''road'' \<mapsto> ''Main St'', ''suburb'' \<mapsto> ''Downtown'']))
     (Some 37) (Some (- 77)) ()) = ''Main St, Downtown''
   \<and> fst (get_nearest_intersection
     (stub_geolocator GeocodeNone (ReverseAddress [''street'' \<mapsto> ''Main St'']))
     (Some 37) (Some (- 77)) ()) = ''Main St''
   \<and> fst (get_nearest_intersection
     (stub_geolocator GeocodeNone (ReverseAddress [''suburb'' \<mapsto> ''Downtown'']))
     (Some 37) (Some (- 77)) ()) = ''Downtown''
   \<and> fst (get_nearest_intersection
     (stub_geolocator GeocodeNone (ReverseAddress Map.empty))
     (Some 37) (Some (- 77)) ()) = []"
proof -
  have r: "\<And>a. reverse (stub_geolocator GeocodeNone (ReverseAddress a)) (37, - 77) () = (ReverseAddress a, ())"
    by (simp add: stub_geolocator_def)
  show ?thesis
    using
      intersection_heuristic[of "stub_geolocator GeocodeNone (ReverseAddress [''road'' \<mapsto> ''Main St & Broad St'', ''suburb'' \<mapsto> ''Downtown''])" None "()" None 37 "- 77" "[''road'' \<mapsto> ''Main St & Broad St'', ''suburb'' \<mapsto> ''Downtown'']" "()"]
      intersection_heuristic[of "stub_geolocator GeocodeNone (ReverseAddress [''road'' \<mapsto> ''Main St'', ''suburb'' \<mapsto> ''Downtown''])" None "()" None 37 "- 77" "[''road'' \<mapsto> ''Main St'', ''suburb'' \<mapsto> ''Downtown'']" "()"]
      intersection_heuristic[of "stub_geolocator GeocodeNone (ReverseAddress [''street'' \<mapsto> ''Main St''])" None "()" None 37 "- 77" "[''street'' \<mapsto> ''Main St'']" "()"]
      intersection_heuristic[of "stub_geolocator GeocodeNone (ReverseAddress [''suburb'' \<mapsto> ''Downtown''])" None "()" None 37 "- 77" "[''suburb'' \<mapsto> ''Downtown'']" "()"]
      intersection_heuristic[of "stub_geolocator GeocodeNone (ReverseAddress Map.empty)" None "()" None 37 "- 77" "Map.empty" "()"]
    by (simp add: r first_present_def)
qed

section \<open>Substrings and the first piece of a split\<close>

lemma split_str_not_empty: "split_str sep s \<noteq> []"
  by (induction sep s rule: split_str.induct) (auto split: list.splits)

lemma contains_append: "contains sub (a @ sub @ b)"
proof (induction a)
  case Nil
  have "prefix sub (sub @ b)" by simp
  then show ?case by (cases "sub @ b") auto
next
  case (Cons c a)
  then show ?case by simp
qed

lemma hd_split_str_first:
  assumes "sep \<noteq> []" and "contains sep s"
  shows "\<exists>rest. s = hd (split_str sep s) @ sep @ rest
           \<and> (\<forall>k < length (hd (split_str sep s)). \<not> prefix sep (drop k s))"
  using assms(2)
proof (induction s)
  case Nil
  with assms(1) show ?case by simp
next
  case (Cons c cs)
  show ?case
  proof (cases "prefix sep (c # cs)")
    case True
    then obtain rest where r: "c # cs = sep @ rest"
      by (auto simp: prefix_def)
    from True assms(1) have h: "hd (split_str sep (c # cs)) = []"
      by simp
    show ?thesis
      unfolding h using r by simp
  next
    case False
    with Cons.prems have "contains sep cs" by simp
    from Cons.IH[OF this] obtain rest where
      r: "cs = hd (split_str sep cs) @ sep @ rest"
      and f: "\<forall>k < length (hd (split_str sep cs)). \<not> prefix sep (drop k cs)"
      by blast
    obtain p ps where s: "split_str sep cs = p # ps"
      using split_str_not_empty[of sep cs] by (cases "split_str sep cs") auto
    have h: "hd (split_str sep (c # cs)) = c # p"
      using False s by simp
    have "c # cs = hd (split_str sep (c # cs)) @ sep @ rest"
      using r s h by simp
    moreover have "\<forall>k < length (hd (split_str sep (c # cs))). \<not> prefix sep (drop k (c # cs))"
    proof (intro allI impI)
      fix k
      assume k: "k < length (hd (split_str sep (c # cs)))"
      show "\<not> prefix sep (drop k (c # cs))"
      proof (cases k)
        case 0
        with False show ?thesis by simp
      next
        case (Suc j)
        with k h s have "j < length (hd (split_str sep cs))" by simp
        with f Suc show ?thesis by simp
      qed
    qed
    ultimately show ?thesis by blast
  qed
qed

lemma process_row_plain_first_event:
  assumes "\<not> prefix ''LL('' (cleanup (strip (cells ! 5)))"
  shows "hd (fst (snd (process_row pyfloat geolocator cells w))) =
         Geocode (address_to_geocode (cleanup (strip (cells ! 5))) @ '', Richmond, VA'')"
  using assms
  by (rule_tac process_row_events[where cells = cells and pyfloat = pyfloat and geolocator = geolocator and w = w])
    auto

text \<open>
  C8. For a row whose cleaned street does not start with \<^verbatim>\<open>LL(\<close> and contains \<^verbatim>\<open> and \<close>,
  the address fragment is exactly the text before the first occurrence of \<^verbatim>\<open> and \<close>, and
  the forward-geocoding query is that fragment followed by the city and state.
\<close>

theorem intersection_keeps_first_street:
  assumes "\<not> prefix ''LL('' (cleanup (strip (cells ! 5)))"
    and "contains '' and '' (cleanup (strip (cells ! 5)))"
  shows "\<exists>frag rest.
           cleanup (strip (cells ! 5)) = frag @ '' and '' @ rest
           \<and> (\<forall>k < length frag. \<not> prefix '' and '' (drop k (cleanup (strip (cells ! 5)))))
           \<and> address_to_geocode (cleanup (strip (cells ! 5))) = frag
           \<and> hd (fst (snd (process_row pyfloat geolocator cells w))) = Geocode (frag @ '', Richmond, VA'')"
proof -
  let ?c = "cleanup (strip (cells ! 5))"
  have a: "address_to_geocode ?c = hd (split_str '' and '' ?c)"
    using assms(2) by (simp add: address_to_geocode_def)
  from hd_split_str_first[OF _ assms(2)] obtain rest where
    "?c = hd (split_str '' and '' ?c) @ '' and '' @ rest"
    and "\<forall>k < length (hd (split_str '' and '' ?c)). \<not> prefix '' and '' (drop k ?c)"
    by auto
  with a process_row_plain_first_event[OF assms(1), of pyfloat geolocator w] show ?thesis
    by metis
qed

theorem intersection_keeps_first_street_witness:
  "cleanup (strip ''MAIN ST/BROAD ST'') = ''MAIN ST and BROAD ST''
   \<and> address_to_geocode (cleanup (strip ''MAIN ST/BROAD ST'')) = ''MAIN ST''
   \<and> (\<exists>frag rest. ''MAIN ST and BROAD ST'' = frag @ '' and '' @ rest
        \<and> hd (fst (snd (process_row float_literal (stub_geolocator GeocodeNone ReverseNone)
             [''10:20'', ''EMS'', ''B07'', '''', ''MEDICAL'', ''MAIN ST/BROAD ST'', ''Enroute''] ())))
           = Geocode (frag @ '', Richmond, VA''))"
proof -
  let ?r = "[''10:20'', ''EMS'', ''B07'', '''', ''MEDICAL'', ''MAIN ST/BROAD ST'', ''Enroute'']"
  have c: "cleanup (strip ''MAIN ST/BROAD ST'') = ''MAIN ST and BROAD ST''"
    by (simp add: eval_defs)
  have c': "cleanup (strip (?r ! 5)) = ''MAIN ST and BROAD ST''"
    using c by simp
  have n: "\<not> prefix ''LL('' (cleanup (strip (?r ! 5)))"
    unfolding c' by simp
  have i: "contains '' and '' (cleanup (strip (?r ! 5)))"
    unfolding c' by simp
  have a: "address_to_geocode ''MAIN ST and BROAD ST'' = ''MAIN ST''"
    by (simp add: address_to_geocode_def)
  from intersection_keeps_first_street[OF n i, of float_literal "stub_geolocator GeocodeNone ReverseNone" "()"]
  have "\<exists>frag rest. ''MAIN ST and BROAD ST'' = frag @ '' and '' @ rest
        \<and> hd (fst (snd (process_row float_literal (stub_geolocator GeocodeNone ReverseNone) ?r ())))
           = Geocode (frag @ '', Richmond, VA'')"
    unfolding c' by blast
  with c a show ?thesis by simp
qed

section \<open>The between clause\<close>

lemma contains_drop: "k \<le> length s \<Longrightarrow> prefix sub (drop k s) \<Longrightarrow> contains sub s"
proof (induction s arbitrary: k)
  case Nil
  then show ?case by simp
next
  case (Cons c cs)
  then show ?case by (cases k) auto
qed

lemma hd_split_str_piece:
  assumes "sep \<noteq> []"
    and "\<forall>k < length a. \<not> prefix sep (drop k (a @ sep @ b))"
  shows "hd (split_str sep (a @ sep @ b)) = a"
  using assms(2)
proof (induction a)
  case Nil
  have "prefix sep (sep @ b)" by simp
  with assms(1) show ?case by (cases "sep @ b") auto
next
  case (Cons c a)
  from Cons.prems have n: "\<not> prefix sep (c # a @ sep @ b)"
    by force
  from Cons.prems have "\<forall>k < length a. \<not> prefix sep (drop k (a @ sep @ b))"
    by force
  from Cons.IH[OF this] have h: "hd (split_str sep (a @ sep @ b)) = a" .
  obtain p ps where s: "split_str sep (a @ sep @ b) = p # ps"
    using split_str_not_empty[of sep "a @ sep @ b"] by (cases "split_str sep (a @ sep @ b)") auto
  from n s h show ?case by simp
qed

lemma hd_split_char: "hd (split_str [c] s) = takeWhile (\<lambda>x. x \<noteq> c) s"
proof (induction s)
  case Nil
  show ?case by simp
next
  case (Cons x xs)
  obtain p ps where s: "split_str [c] xs = p # ps"
    using split_str_not_empty[of "[c]" xs] by (cases "split_str [c] xs") auto
  with Cons show ?case by auto
qed

lemma no_early_between:
  assumes "\<not> contains ''BETWEEN'' mid" and "k < length mid"
  shows "\<not> prefix ''BETWEEN'' (drop k (mid @ ''BETWEEN'' @ b))"
proof
  assume p: "prefix ''BETWEEN'' (drop k (mid @ ''BETWEEN'' @ b))"
  define t where "t = drop k mid"
  from assms(2) have t: "t \<noteq> []"
    by (simp add: t_def)
  from p assms(2) have "prefix ''BETWEEN'' (t @ (''BETWEEN'' @ b))"
    by (simp add: t_def)
  then consider "prefix ''BETWEEN'' t"
    | us where "''BETWEEN'' = t @ us" "prefix us (''BETWEEN'' @ b)"
    unfolding prefix_append by blast
  then show False
  proof cases
    case 1
    with assms show ?thesis
      using contains_drop[of k mid "''BETWEEN''"] by (simp add: t_def)
  next
    case 2
    show ?thesis
    proof (cases us)
      case Nil
      with 2 have "prefix ''BETWEEN'' t" by simp
      with assms show ?thesis
        using contains_drop[of k mid "''BETWEEN''"] by (simp add: t_def)
    next
      case (Cons u us')
      with 2(2) have u: "u = CHR ''B''" by simp
      obtain c t' where c: "t = c # t'"
        using t by (cases t) auto
      with 2(1) Cons have "t' @ u # us' = ''ETWEEN''" by simp
      then have "u \<in> set ''ETWEEN''"
        by (metis in_set_conv_decomp)
      with u show ?thesis by simp
    qed
  qed
qed

lemma match_dir_long:
  assumes "is_space w" and "d = ''NB'' \<or> d = ''SB''"
  shows "match_dir (c # p @ w # d) = None"
proof -
  have l: "length (p @ w # d) = length p + 3"
    using assms(2) by auto
  have n: "\<not> is_space (CHR ''N'')" "\<not> is_space (CHR ''S'')"
    by (simp_all add: is_space_def)
  have short: "p @ w # d \<noteq> x" if "length x = 2" for x
    using l that by auto
  have long: "p @ w # d \<noteq> [x, CHR ''B'', CHR 0x0A]" if "\<not> is_space x" for x
  proof
    assume e: "p @ w # d = [x, CHR ''B'', CHR 0x0A]"
    then have "length (p @ w # d) = 3" by simp
    with l have "p = []" by simp
    with e have "w = x" by simp
    with assms(1) that show False by simp
  qed
  show ?thesis
    using short[of "''NB''"] short[of "''SB''"] long[OF n(1)] long[OF n(2)]
    by (simp add: match_dir_def)
qed

lemma sub_dir_removes:
  assumes "is_space w" and "d = ''NB'' \<or> d = ''SB''"
  shows "sub_dir (p @ w # d) = p"
proof (induction p)
  case Nil
  from assms show ?case by (auto simp: match_dir_def)
next
  case (Cons c p)
  with match_dir_long[OF assms, of c p] show ?case by simp
qed

lemma sub_dir_unchanged:
  assumes "\<forall>u. suffix u t \<longrightarrow> match_dir u = None"
  shows "sub_dir t = t"
  using assms
proof (induction t)
  case Nil
  show ?case by simp
next
  case (Cons c t)
  have "match_dir (c # t) = None"
    using Cons.prems by (simp add: suffix_order.refl)
  moreover have "\<forall>u. suffix u t \<longrightarrow> match_dir u = None"
    using Cons.prems by (simp add: suffix_Cons)
  ultimately show ?case using Cons.IH by simp
qed

lemma strip_last: "strip s \<noteq> [] \<Longrightarrow> \<not> is_space (last (strip s))"
proof -
  assume "strip s \<noteq> []"
  then have n: "dropWhile is_space (rev (dropWhile is_space s)) \<noteq> []"
    by (simp add: strip_def)
  then have "\<not> is_space (hd (dropWhile is_space (rev (dropWhile is_space s))))"
    by (rule hd_dropWhile)
  with n show ?thesis
    by (simp add: strip_def last_rev)
qed

lemma sub_dir_strip:
  "(\<forall>p w d. strip s = p @ w # d \<and> is_space w \<and> (d = ''NB'' \<or> d = ''SB'') \<longrightarrow> sub_dir (strip s) = p)
   \<and> ((\<nexists>p w d. strip s = p @ w # d \<and> is_space w \<and> (d = ''NB'' \<or> d = ''SB'')) \<longrightarrow>
        sub_dir (strip s) = strip s)"
proof (intro conjI allI impI)
  fix p w d
  assume "strip s = p @ w # d \<and> is_space w \<and> (d = ''NB'' \<or> d = ''SB'')"
  then show "sub_dir (strip s) = p"
    using sub_dir_removes[of w d p] by simp
next
  assume no: "\<nexists>p w d. strip s = p @ w # d \<and> is_space w \<and> (d = ''NB'' \<or> d = ''SB'')"
  have "\<forall>u. suffix u (strip s) \<longrightarrow> match_dir u = None"
  proof (intro allI impI)
    fix u
    assume u: "suffix u (strip s)"
    show "match_dir u = None"
    proof (rule ccontr)
      assume "match_dir u \<noteq> None"
      then obtain w r where m: "u = w # r" "is_space w"
        "r = ''NB'' \<or> r = ''SB'' \<or> r = ''NB'' @ [CHR 0x0A] \<or> r = ''SB'' @ [CHR 0x0A]"
        by (auto simp: match_dir_def split: list.splits if_splits)
      from u obtain p where p: "strip s = p @ u"
        by (auto simp: suffix_def)
      from m(3) consider "r = ''NB'' \<or> r = ''SB''" | "r = ''NB'' @ [CHR 0x0A] \<or> r = ''SB'' @ [CHR 0x0A]"
        by blast
      then show False
      proof cases
        case 1
        with no p m show ?thesis by blast
      next
        case 2
        with p m have "last (strip s) = CHR 0x0A" and "strip s \<noteq> []"
          by auto
        with strip_last[of s] show ?thesis
          by (simp add: is_space_def)
      qed
    qed
  qed
  then show "sub_dir (strip s) = strip s"
    by (rule sub_dir_unchanged)
qed

lemma between_extraction:
  assumes "\<not> contains '' and '' c" and "contains ''RICH: @'' c"
    and "c = pre @ ''@'' @ mid @ ''BETWEEN'' @ post"
    and "CHR ''@'' \<notin> set pre" "CHR ''@'' \<notin> set mid" "\<not> contains ''BETWEEN'' mid"
  shows "address_to_geocode c = sub_dir (strip mid)"
proof -
  have b: "contains ''BETWEEN'' c"
    unfolding assms(3) using contains_append[of "''BETWEEN''" "pre @ ''@'' @ mid" post] by simp
  have "split_str ''@'' c = pre # split_str ''@'' (mid @ ''BETWEEN'' @ post)"
    unfolding assms(3) using split_char_append[OF assms(4), of "mid @ ''BETWEEN'' @ post"] by simp
  moreover obtain x xs where x: "split_str ''@'' (mid @ ''BETWEEN'' @ post) = x # xs"
    using split_str_not_empty[of "''@''" "mid @ ''BETWEEN'' @ post"]
    by (cases "split_str ''@'' (mid @ ''BETWEEN'' @ post)") auto
  ultimately have s: "split_str ''@'' c = pre # x # xs"
    by simp
  have "x = takeWhile (\<lambda>x. x \<noteq> CHR ''@'') (mid @ ''BETWEEN'' @ post)"
    using hd_split_char[of "CHR ''@''" "mid @ ''BETWEEN'' @ post"] x by simp
  also have "\<dots> = mid @ ''BETWEEN'' @ takeWhile (\<lambda>x. x \<noteq> CHR ''@'') post"
    using assms(5) by (induction mid) auto
  finally have x': "x = mid @ ''BETWEEN'' @ takeWhile (\<lambda>x. x \<noteq> CHR ''@'') post" .
  have "hd (split_str ''BETWEEN'' x) = mid"
    unfolding x'
    by (rule hd_split_str_piece) (use no_early_between[OF assms(6)] in auto)
  with assms(1,2) b s show ?thesis
    by (simp add: address_to_geocode_def)
qed

text \<open>
  C7, as stated, fails: the rule also fires when \<^verbatim>\<open>BETWEEN\<close> stands before the marker
  \<^verbatim>\<open>RICH: @\<close> and nowhere after it; the fragment is then the text after \<^verbatim>\<open>@\<close>, which no
  \<^verbatim>\<open>BETWEEN\<close> follows.
\<close>

theorem between_before_marker:
  "cleanup ''BETWEEN 1ST ST RICH: @BROAD ST'' = ''BETWEEN 1ST ST RICH: @BROAD ST''
   \<and> \<not> prefix ''LL('' ''BETWEEN 1ST ST RICH: @BROAD ST''
   \<and> \<not> contains '' and '' ''BETWEEN 1ST ST RICH: @BROAD ST''
   \<and> \<not> marker_then_between ''BETWEEN 1ST ST RICH: @BROAD ST''
   \<and> address_to_geocode ''BETWEEN 1ST ST RICH: @BROAD ST'' = ''BROAD ST''"
  by (simp add: eval_defs marker_then_between_def address_to_geocode_def match_dir_def)

lemma contains_set: "contains sub s \<Longrightarrow> set sub \<subseteq> set s"
proof (induction s)
  case Nil
  then show ?case by simp
next
  case (Cons c cs)
  then show ?case
    using set_mono_prefix[of sub "c # cs"] by auto
qed

lemma hd_split_before_first: "sep \<noteq> [] \<Longrightarrow> hd (split_str sep s) = before_first sep s"
proof (induction s)
  case Nil
  show ?case by simp
next
  case (Cons c cs)
  obtain p ps where "split_str sep cs = p # ps"
    using split_str_not_empty[of sep cs] by (cases "split_str sep cs") auto
  with Cons show ?case by auto
qed

lemma sub_dir_drop_direction: "sub_dir (strip s) = drop_direction (strip s)"
proof (cases "\<exists>p w d. strip s = p @ w # d \<and> is_space w \<and> (d = ''NB'' \<or> d = ''SB'')")
  case True
  then obtain p w d where t: "strip s = p @ w # d" and w: "is_space w" and d: "d = ''NB'' \<or> d = ''SB''"
    by blast
  from t w d have 1: "sub_dir (strip s) = p"
    using sub_dir_strip[of s] by blast
  from d have ld: "length d = 2" by auto
  have n: "length (p @ w # d) - 3 = length p" "length (p @ w # d) - 2 = Suc (length p)"
    using ld by simp_all
  have "drop_direction (p @ w # d) = p"
    unfolding drop_direction_def n using w d ld by auto
  with 1 t show ?thesis by simp
next
  case False
  then have 1: "sub_dir (strip s) = strip s"
    using sub_dir_strip[of s] by blast
  have "\<not> (3 \<le> length (strip s) \<and> is_space (strip s ! (length (strip s) - 3))
         \<and> (drop (length (strip s) - 2) (strip s) = ''NB'' \<or> drop (length (strip s) - 2) (strip s) = ''SB''))"
  proof
    define t where "t = strip s"
    define n where "n = length t"
    assume "3 \<le> length (strip s) \<and> is_space (strip s ! (length (strip s) - 3))
         \<and> (drop (length (strip s) - 2) (strip s) = ''NB'' \<or> drop (length (strip s) - 2) (strip s) = ''SB'')"
    then have a: "3 \<le> n" "is_space (t ! (n - 3))" "drop (n - 2) t = ''NB'' \<or> drop (n - 2) t = ''SB''"
      by (simp_all add: t_def n_def)
    from a(1) have "n - 3 < length t" and sn: "Suc (n - 3) = n - 2"
      unfolding n_def by arith+
    from id_take_nth_drop[OF this(1)] have "t = take (n - 3) t @ t ! (n - 3) # drop (n - 2) t"
      unfolding sn .
    with a(2,3) have "\<exists>p w d. t = p @ w # d \<and> is_space w \<and> (d = ''NB'' \<or> d = ''SB'')"
      by blast
    with False show False
      unfolding t_def by blast
  qed
  then have "drop_direction (strip s) = strip s"
    unfolding drop_direction_def by (rule if_not_P)
  with 1 show ?thesis by simp
qed

lemma between_fragment:
  assumes "\<not> contains '' and '' c" and "contains ''RICH: @'' c" and "contains ''BETWEEN'' c"
    and "c = pre @ CHR ''@'' # rest" and "CHR ''@'' \<notin> set pre"
  shows "address_to_geocode c =
         drop_direction (strip (before_first ''BETWEEN'' (takeWhile (\<lambda>x. x \<noteq> CHR ''@'') rest)))"
proof -
  have "split_str ''@'' c = pre # split_str ''@'' rest"
    unfolding assms(4) using split_char_append[OF assms(5), of rest] by simp
  moreover obtain x xs where x: "split_str ''@'' rest = x # xs"
    using split_str_not_empty[of "''@''" rest] by (cases "split_str ''@'' rest") auto
  ultimately have s: "split_str ''@'' c = pre # x # xs"
    by simp
  have x': "x = takeWhile (\<lambda>x. x \<noteq> CHR ''@'') rest"
    using hd_split_char[of "CHR ''@''" rest] x by simp
  have "address_to_geocode c = sub_dir (strip (hd (split_str ''BETWEEN'' x)))"
    using assms(1-3) s by (simp add: address_to_geocode_def)
  also have "\<dots> = drop_direction (strip (before_first ''BETWEEN'' x))"
    by (simp add: hd_split_before_first sub_dir_drop_direction)
  finally show ?thesis
    unfolding x' .
qed

lemma first_at_exists:
  assumes "contains ''RICH: @'' c"
  shows "\<exists>pre rest. c = pre @ CHR ''@'' # rest \<and> CHR ''@'' \<notin> set pre"
proof -
  from contains_set[OF assms] have "CHR ''@'' \<in> set c"
    by simp
  then show ?thesis
    by (rule split_list_first)
qed

text \<open>
  C7, amended. For a cleaned string without \<^verbatim>\<open> and \<close>, the rule fires exactly when the
  string contains \<^verbatim>\<open>RICH: @\<close> and contains \<^verbatim>\<open>BETWEEN\<close>, in either order; otherwise the
  fragment is the cleaned string. When it fires, the fragment is the text between the
  first \<^verbatim>\<open>@\<close> of the string and the next \<^verbatim>\<open>@\<close> or the end, cut before its first \<^verbatim>\<open>BETWEEN\<close> if
  it has one, trimmed, with one trailing whitespace character and \<^verbatim>\<open>NB\<close> or \<^verbatim>\<open>SB\<close> removed
  when the trimmed text ends so. In particular, when the first \<^verbatim>\<open>@\<close> is followed by a
  \<^verbatim>\<open>BETWEEN\<close> before any further \<^verbatim>\<open>@\<close>, the fragment comes from the text after that \<^verbatim>\<open>@\<close> and
  before the first \<^verbatim>\<open>BETWEEN\<close> after it.
\<close>

theorem between_rule:
  "(\<not> contains '' and '' c \<and> \<not> (contains ''RICH: @'' c \<and> contains ''BETWEEN'' c) \<longrightarrow>
      address_to_geocode c = c)
   \<and> (\<not> contains '' and '' c \<and> contains ''RICH: @'' c
       \<and> c = pre @ ''@'' @ mid @ ''BETWEEN'' @ post
       \<and> CHR ''@'' \<notin> set pre \<and> CHR ''@'' \<notin> set mid \<and> \<not> contains ''BETWEEN'' mid \<longrightarrow>
        (\<forall>p w d. strip mid = p @ w # d \<and> is_space w \<and> (d = ''NB'' \<or> d = ''SB'') \<longrightarrow>
           address_to_geocode c = p)
        \<and> ((\<nexists>p w d. strip mid = p @ w # d \<and> is_space w \<and> (d = ''NB'' \<or> d = ''SB'')) \<longrightarrow>
           address_to_geocode c = strip mid))
   \<and> (\<not> contains '' and '' c \<and> contains ''RICH: @'' c \<and> contains ''BETWEEN'' c \<longrightarrow>
        (\<exists>before after. c = before @ CHR ''@'' # after \<and> CHR ''@'' \<notin> set before)
        \<and> (\<forall>before after. c = before @ CHR ''@'' # after \<and> CHR ''@'' \<notin> set before \<longrightarrow>
              address_to_geocode c =
                drop_direction (strip (before_first ''BETWEEN''
                  (takeWhile (\<lambda>x. x \<noteq> CHR ''@'') after)))))"
proof (intro conjI impI allI)
  assume "\<not> contains '' and '' c \<and> \<not> (contains ''RICH: @'' c \<and> contains ''BETWEEN'' c)"
  then show "address_to_geocode c = c"
    by (auto simp: address_to_geocode_def)
next
  fix p w d
  assume a: "\<not> contains '' and '' c \<and> contains ''RICH: @'' c
       \<and> c = pre @ ''@'' @ mid @ ''BETWEEN'' @ post
       \<and> CHR ''@'' \<notin> set pre \<and> CHR ''@'' \<notin> set mid \<and> \<not> contains ''BETWEEN'' mid"
    and b: "strip mid = p @ w # d \<and> is_space w \<and> (d = ''NB'' \<or> d = ''SB'')"
  from a have e: "address_to_geocode c = sub_dir (strip mid)"
    using between_extraction[of c pre mid post] by blast
  from b show "address_to_geocode c = p"
    unfolding e using sub_dir_strip[of mid] by blast
next
  assume a: "\<not> contains '' and '' c \<and> contains ''RICH: @'' c
       \<and> c = pre @ ''@'' @ mid @ ''BETWEEN'' @ post
       \<and> CHR ''@'' \<notin> set pre \<and> CHR ''@'' \<notin> set mid \<and> \<not> contains ''BETWEEN'' mid"
    and b: "\<nexists>p w d. strip mid = p @ w # d \<and> is_space w \<and> (d = ''NB'' \<or> d = ''SB'')"
  from a have e: "address_to_geocode c = sub_dir (strip mid)"
    using between_extraction[of c pre mid post] by blast
  from b show "address_to_geocode c = strip mid"
    unfolding e using sub_dir_strip[of mid] by blast
next
  assume "\<not> contains '' and '' c \<and> contains ''RICH: @'' c \<and> contains ''BETWEEN'' c"
  then show "\<exists>before after. c = before @ CHR ''@'' # after \<and> CHR ''@'' \<notin> set before"
    using first_at_exists[of c] by blast
next
  fix before after
  assume "\<not> contains '' and '' c \<and> contains ''RICH: @'' c \<and> contains ''BETWEEN'' c"
    and "c = before @ CHR ''@'' # after \<and> CHR ''@'' \<notin> set before"
  then show "address_to_geocode c =
                drop_direction (strip (before_first ''BETWEEN''
                  (takeWhile (\<lambda>x. x \<noteq> CHR ''@'') after)))"
    using between_fragment[of c before after] by blast
qed

theorem between_rule_witness:
  "address_to_geocode ''RICH: @BROAD ST NB BETWEEN 1ST ST & 2ND ST'' = ''BROAD ST''
   \<and> address_to_geocode ''BETWEEN 1ST ST RICH: @BROAD ST SB@X'' =
       drop_direction (strip (before_first ''BETWEEN'' (takeWhile (\<lambda>x. x \<noteq> CHR ''@'') ''BROAD ST SB@X'')))
   \<and> drop_direction (strip (before_first ''BETWEEN'' (takeWhile (\<lambda>x. x \<noteq> CHR ''@'') ''BROAD ST SB@X'')))
       = ''BROAD ST''"
proof -
  let ?c = "''RICH: @BROAD ST NB BETWEEN 1ST ST & 2ND ST''"
  let ?d = "''BETWEEN 1ST ST RICH: @BROAD ST SB@X''"
  have h: "\<not> contains '' and '' ?c \<and> contains ''RICH: @'' ?c
       \<and> ?c = ''RICH: '' @ ''@'' @ ''BROAD ST NB '' @ ''BETWEEN'' @ '' 1ST ST & 2ND ST''
       \<and> CHR ''@'' \<notin> set ''RICH: '' \<and> CHR ''@'' \<notin> set ''BROAD ST NB ''
       \<and> \<not> contains ''BETWEEN'' ''BROAD ST NB ''"
    by simp
  have s: "strip ''BROAD ST NB '' = ''BROAD ST'' @ CHR '' '' # ''NB'' \<and> is_space (CHR '' '')
           \<and> (''NB'' = ''NB'' \<or> ''NB'' = ''SB'')"
    by (simp add: strip_def is_space_def)
  from between_rule[of ?c "''RICH: ''" "''BROAD ST NB ''" "'' 1ST ST & 2ND ST''"] h
  have "\<forall>p w d. strip ''BROAD ST NB '' = p @ w # d \<and> is_space w \<and> (d = ''NB'' \<or> d = ''SB'') \<longrightarrow>
           address_to_geocode ?c = p"
    by blast
  with s have 1: "address_to_geocode ?c = ''BROAD ST''"
    by blast
  have g: "\<not> contains '' and '' ?d \<and> contains ''RICH: @'' ?d \<and> contains ''BETWEEN'' ?d"
    by simp
  have f: "?d = ''BETWEEN 1ST ST RICH: '' @ CHR ''@'' # ''BROAD ST SB@X''
      \<and> CHR ''@'' \<notin> set ''BETWEEN 1ST ST RICH: ''"
    by simp
  from between_rule[of ?d] g
  have "\<forall>before after. ?d = before @ CHR ''@'' # after \<and> CHR ''@'' \<notin> set before \<longrightarrow>
              address_to_geocode ?d =
                drop_direction (strip (before_first ''BETWEEN''
                  (takeWhile (\<lambda>x. x \<noteq> CHR ''@'') after)))"
    by blast
  with f have 2: "address_to_geocode ?d =
       drop_direction (strip (before_first ''BETWEEN'' (takeWhile (\<lambda>x. x \<noteq> CHR ''@'') ''BROAD ST SB@X'')))"
    by blast
  have 3: "drop_direction (strip (before_first ''BETWEEN'' (takeWhile (\<lambda>x. x \<noteq> CHR ''@'') ''BROAD ST SB@X'')))
       = ''BROAD ST''"
    by (simp add: drop_direction_def strip_def is_space_def)
  from 1 2 3 show ?thesis
    by blast
qed

section \<open>Cleanup applied twice\<close>

lemma replace_str_absent: "\<not> contains old s \<Longrightarrow> replace_str old new s = s"
  by (induction s) auto

lemma replace_slash_free: "CHR ''/'' \<notin> set (replace_str ''/'' '' and '' s)"
  by (induction s) auto

lemma not_contains_slash: "CHR ''/'' \<notin> set s \<Longrightarrow> \<not> contains ''/'' s"
  by (induction s) auto

lemma set_sub_rich: "set (sub_rich s) \<subseteq> set s"
proof (induction s)
  case Nil
  show ?case by simp
next
  case (Cons c cs)
  show ?case
  proof (cases "match_rich (c # cs)")
    case None
    with Cons show ?thesis by auto
  next
    case (Some rest)
    then have "rest = drop 4 (dropWhile is_space (c # cs))"
      by (auto simp: match_rich_def Let_def split: if_splits)
    then have "set rest \<subseteq> set (c # cs)"
      using set_drop_subset[of 4 "dropWhile is_space (c # cs)"] set_dropWhileD[of _ is_space "c # cs"]
      by blast
    with Some show ?thesis by simp
  qed
qed

lemma set_strip: "set (strip s) \<subseteq> set s"
proof
  fix x
  assume "x \<in> set (strip s)"
  then have "x \<in> set (dropWhile is_space (rev (dropWhile is_space s)))"
    by (simp add: strip_def)
  then have "x \<in> set (rev (dropWhile is_space s))"
    by (rule set_dropWhileD)
  then have "x \<in> set (dropWhile is_space s)"
    by simp
  then show "x \<in> set s"
    by (rule set_dropWhileD)
qed

lemma cleanup_slash_free: "CHR ''/'' \<notin> set (cleanup s)"
  using set_strip set_sub_rich replace_slash_free unfolding cleanup_def by blast

lemma strip_hd: "strip s \<noteq> [] \<Longrightarrow> \<not> is_space (hd (strip s))"
proof -
  let ?a = "dropWhile is_space s"
  let ?b = "dropWhile is_space (rev ?a)"
  assume "strip s \<noteq> []"
  then have b: "?b \<noteq> []"
    by (simp add: strip_def)
  have a: "?a \<noteq> []"
  proof
    assume "?a = []"
    with b show False by simp
  qed
  have "suffix ?b (rev ?a)"
    by (rule suffix_dropWhile)
  then obtain q where "rev ?a = q @ ?b"
    by (auto simp: suffix_def)
  with b have "last ?b = last (rev ?a)"
    by (metis last_appendR)
  also have "\<dots> = hd ?a"
    using a by (simp add: last_rev)
  finally have "hd (strip s) = hd ?a"
    using b by (simp add: strip_def hd_rev)
  with hd_dropWhile[OF a] show ?thesis
    by simp
qed

lemma strip_fixed:
  assumes "t = [] \<or> (\<not> is_space (hd t) \<and> \<not> is_space (last t))"
  shows "strip t = t"
proof (cases t)
  case Nil
  then show ?thesis by (simp add: strip_def)
next
  case (Cons c cs)
  with assms have h: "\<not> is_space c" and l: "\<not> is_space (last t)"
    by auto
  from h Cons have 1: "dropWhile is_space t = t"
    by simp
  from Cons have "rev t \<noteq> []" by simp
  then obtain x xs where r: "rev t = x # xs"
    by (cases "rev t") auto
  then have "x = last t"
    using Cons by (metis hd_rev list.sel(1) list.distinct(1))
  with l have "dropWhile is_space (x # xs) = x # xs"
    by simp
  then have 2: "dropWhile is_space (rev t) = rev t"
    unfolding r .
  show ?thesis
    by (simp add: strip_def 1 2)
qed

lemma strip_strip: "strip (strip s) = strip s"
  using strip_hd[of s] strip_last[of s] by (intro strip_fixed) blast

lemma sub_rich_unchanged:
  assumes "\<forall>u. suffix u t \<longrightarrow> match_rich u = None"
  shows "sub_rich t = t"
  using assms
proof (induction t)
  case Nil
  show ?case by simp
next
  case (Cons c t)
  have "match_rich (c # t) = None"
    using Cons.prems by (simp add: suffix_order.refl)
  moreover have "\<forall>u. suffix u t \<longrightarrow> match_rich u = None"
    using Cons.prems by (simp add: suffix_Cons)
  ultimately show ?case using Cons.IH by simp
qed

lemma sub_rich_strip_unchanged:
  assumes "\<nexists>p w. strip s = p @ w # ''RICH'' \<and> is_space w"
  shows "sub_rich (strip s) = strip s"
proof (rule sub_rich_unchanged, intro allI impI)
  fix u
  assume u: "suffix u (strip s)"
  show "match_rich u = None"
  proof (rule ccontr)
    assume "match_rich u \<noteq> None"
    then have d: "dropWhile is_space u \<noteq> u"
      and r: "dropWhile is_space u = ''RICH'' \<or> dropWhile is_space u = ''RICH'' @ [CHR 0x0A]"
      by (auto simp: match_rich_def Let_def split: if_splits)
    from u obtain q where q: "strip s = q @ u"
      by (auto simp: suffix_def)
    define ws where "ws = takeWhile is_space u"
    have split: "u = ws @ dropWhile is_space u"
      by (simp add: ws_def)
    from d have ws: "ws \<noteq> []"
      unfolding ws_def by (cases u) (auto split: if_splits)
    then have lw: "is_space (last ws)"
      unfolding ws_def by (metis last_in_set set_takeWhileD)
    from r show False
    proof
      assume e: "dropWhile is_space u = ''RICH''"
      from ws have "ws = butlast ws @ [last ws]" by simp
      with split e q have "strip s = (q @ butlast ws) @ last ws # ''RICH''"
        by (metis append.assoc append_Cons append_Nil)
      with lw assms show False by blast
    next
      assume e: "dropWhile is_space u = ''RICH'' @ [CHR 0x0A]"
      with split q have "strip s = (q @ ws @ ''RICH'') @ [CHR 0x0A]"
        by (metis append.assoc)
      then have "last (strip s) = CHR 0x0A" and "strip s \<noteq> []"
        by (metis last_snoc, metis snoc_eq_iff_butlast)
      with strip_last[of s] show False
        by (simp add: is_space_def)
    qed
  qed
qed

text \<open>
  C5, as stated, fails: removing a trailing \<^verbatim>\<open> RICH\<close> can uncover another one, and removing
  \<^verbatim>\<open>-BLK\<close> can join the text around it into a new \<^verbatim>\<open>-BLK\<close>, so a second cleanup changes
  the result of the first.
\<close>

theorem cleanup_not_idempotent:
  "cleanup ''MAIN ST RICH RICH'' = ''MAIN ST RICH''
   \<and> cleanup (cleanup ''MAIN ST RICH RICH'') = ''MAIN ST''
   \<and> cleanup ''-B-BLKLK'' = ''-BLK''
   \<and> cleanup (cleanup ''-B-BLKLK'') = []"
  by (simp add: eval_defs)

text \<open>
  C5, amended. Applying the cleanup twice gives the same string as applying it once for
  every input whose cleaned string contains no \<^verbatim>\<open>-BLK\<close> and does not end in a whitespace
  character followed by \<^verbatim>\<open>RICH\<close>.
\<close>

theorem cleanup_idempotent_when_clean:
  assumes "\<not> contains ''-BLK'' (cleanup s)"
    and "\<nexists>p w. cleanup s = p @ w # ''RICH'' \<and> is_space w"
  shows "cleanup (cleanup s) = cleanup s"
proof -
  define t where "t = sub_rich (replace_str ''/'' '' and '' (replace_str ''-BLK'' '''' s))"
  have c: "cleanup s = strip t"
    by (simp add: cleanup_def t_def)
  have 1: "replace_str ''-BLK'' '''' (cleanup s) = cleanup s"
    using assms(1) by (rule replace_str_absent)
  have 2: "replace_str ''/'' '' and '' (cleanup s) = cleanup s"
    using cleanup_slash_free[of s] by (intro replace_str_absent not_contains_slash)
  have 3: "sub_rich (strip t) = strip t"
    using assms(2) unfolding c by (rule sub_rich_strip_unchanged)
  have "cleanup (cleanup s) = strip (sub_rich (cleanup s))"
    unfolding cleanup_def[of "cleanup s"] 1 2 ..
  also have "\<dots> = strip (strip t)"
    unfolding c 3 ..
  also have "\<dots> = cleanup s"
    unfolding c by (rule strip_strip)
  finally show ?thesis .
qed

theorem cleanup_idempotent_when_clean_witness:
  "cleanup ''123-BLK MAIN ST RICH'' = ''123 MAIN ST''
   \<and> cleanup (cleanup ''123-BLK MAIN ST RICH'') = ''123 MAIN ST''"
proof -
  have c: "cleanup ''123-BLK MAIN ST RICH'' = ''123 MAIN ST''"
    by (simp add: eval_defs)
  have 1: "\<not> contains ''-BLK'' (cleanup ''123-BLK MAIN ST RICH'')"
    unfolding c by simp
  have 2: "\<nexists>p w. cleanup ''123-BLK MAIN ST RICH'' = p @ w # ''RICH'' \<and> is_space w"
  proof
    assume "\<exists>p w. cleanup ''123-BLK MAIN ST RICH'' = p @ w # ''RICH'' \<and> is_space w"
    then obtain p w where "''123 MAIN ST'' = (p @ [w]) @ ''RICH''"
      unfolding c by auto
    then have "suffix ''RICH'' ''123 MAIN ST''"
      unfolding suffix_def by blast
    then show False
      by (simp add: suffix_to_prefix)
  qed
  from cleanup_idempotent_when_clean[OF 1 2] c show ?thesis
    by simp
qed

end
